(* ===== verification/Prelude.thy ===== *)
theory Prelude
  imports Main "HOL-Library.Word" "HOL-Library.AList"
begin

text \<open>
  Shared vocabulary of the scanner model: the Python exceptions the code can raise,
  Python/NumPy indexing with negative indices, the outcome of a loop that is driven by a
  finite prefix of an input stream, the byte type of NumPy's \<open>uint8\<close>, and the list
  lemmas the component theories share.
\<close>

named_theorems model_simps \<open>characteristic equations of the scanner model\<close>

type_synonym u8 = "8 word"

text \<open>The exceptions of the source that the model makes visible.\<close>

datatype py_error = IndexError | KeyError

text \<open>
  Python and NumPy indexing of a sequence of length \<open>n\<close> by an integer \<open>i\<close>: a negative
  index counts from the end, anything outside \<open>[-n, n)\<close> raises \<open>IndexError\<close>.
\<close>

definition py_idx :: "int \<Rightarrow> nat \<Rightarrow> py_error + nat" where
  "py_idx i n =
     (if 0 \<le> i \<and> i < int n then Inr (nat i)
      else if i < 0 \<and> - int n \<le> i then Inr (nat (int n + i))
      else Inl IndexError)"

text \<open>Python's \<open>s[i]\<close> on a string or list, with the index checked.\<close>

definition py_get :: "'a list \<Rightarrow> int \<Rightarrow> py_error + 'a" where
  "py_get xs i = (case py_idx i (length xs) of Inl e \<Rightarrow> Inl e | Inr j \<Rightarrow> Inr (xs ! j))"

text \<open>
  A loop of the source that reads from an unbounded input stream (camera frames, key
  presses, operator attempts) is modelled over a finite prefix of that stream. Its outcome
  is a value when the loop exits, an exception when one escapes it, or \<open>Waiting\<close> when
  the prefix ran out before the loop exited (the program is still blocked in the loop).
\<close>

datatype 'a run = Done 'a | Raised py_error | Waiting

text \<open>
  The six colour letters the classifier emits (the scan palette) and the six face letters
  the solver expects (the solver palette), in the order \<open>colorconvert\<close> tests them.
\<close>

definition scan_palette :: "char list" where
  "scan_palette = ''WYOBGR''"

definition solver_palette :: "char list" where
  "solver_palette = ''UDBRLF''"

subsection \<open>Indexing lemmas\<close>

lemma py_idx_in_range [model_simps]:
  "0 \<le> i \<Longrightarrow> i < int n \<Longrightarrow> py_idx i n = Inr (nat i)"
  by (simp add: py_idx_def)

lemma py_idx_negative [model_simps]:
  "i < 0 \<Longrightarrow> - int n \<le> i \<Longrightarrow> py_idx i n = Inr (nat (int n + i))"
  by (simp add: py_idx_def)

lemma py_idx_Inr_bound: "py_idx i n = Inr j \<Longrightarrow> j < n"
  by (auto simp: py_idx_def split: if_splits)

lemma py_idx_Inl: "py_idx i n = Inl e \<Longrightarrow> e = IndexError"
  by (auto simp: py_idx_def split: if_splits)

lemma py_idx_error_iff: "(\<exists>e. py_idx i n = Inl e) \<longleftrightarrow> i < - int n \<or> int n \<le> i"
  by (auto simp: py_idx_def)

lemma py_get_nat [model_simps]: "i < length xs \<Longrightarrow> py_get xs (int i) = Inr (xs ! i)"
  by (simp add: py_get_def py_idx_def)

lemma py_get_past_end: "length xs \<le> i \<Longrightarrow> py_get xs (int i) = Inl IndexError"
  by (simp add: py_get_def py_idx_def)

subsection \<open>List lemmas shared by the components\<close>

lemma length_concat_map_const:
  "(\<And>x. x \<in> set xs \<Longrightarrow> length (f x) = k) \<Longrightarrow> length (concat (map f xs)) = k * length xs"
  by (induction xs) auto

lemma nth_concat_map_const:
  "(\<And>x. x \<in> set xs \<Longrightarrow> length (f x) = k) \<Longrightarrow> i < length xs \<Longrightarrow> j < k \<Longrightarrow>
   concat (map f xs) ! (k * i + j) = f (xs ! i) ! j"
proof (induction xs arbitrary: i)
  case Nil
  then show ?case by simp
next
  case (Cons x xs)
  show ?case
  proof (cases i)
    case 0
    with Cons.prems show ?thesis by (simp add: nth_append)
  next
    case (Suc i')
    with Cons.prems have "concat (map f xs) ! (k * i' + j) = f (xs ! i') ! j"
      by (intro Cons.IH) auto
    moreover have "k * i + j = length (f x) + (k * i' + j)" using Suc Cons.prems(1) by simp
    ultimately show ?thesis using Suc by (simp add: nth_append)
  qed
qed

lemma update_new_key:
  "k \<notin> set (map fst al) \<Longrightarrow> AList.update k v al = al @ [(k, v)]"
  by (induction al) auto

lemma concat_take_drop:
  "length xs = k * n \<Longrightarrow> concat (map (\<lambda>i. take k (drop (k * i) xs)) [0..<n]) = xs"
proof (induction n arbitrary: xs)
  case 0
  then show ?case by simp
next
  case (Suc n)
  have "length (drop k xs) = k * n" using Suc.prems by simp
  then have "concat (map (\<lambda>i. take k (drop (k * i) (drop k xs))) [0..<n]) = drop k xs" by (rule Suc.IH)
  moreover have "map (\<lambda>i. take k (drop (k * i) xs)) [0..<Suc n] =
      take k xs # map (\<lambda>i. take k (drop (k * i) (drop k xs))) [0..<n]"
    by (simp add: upt_conv_Cons map_Suc_upt [symmetric] del: upt_Suc) (simp add: algebra_simps)
  ultimately show ?case by simp
qed

end
