(* ===== verification/Classifier.thy ===== *)
theory Classifier
  imports Prelude
begin

text \<open>
  ColorClassifier: \<open>detect_color\<close> of \<open>src/RCsolver.py\<close> (lines 23--63). A pixel is the
  \<open>uint8\<close> triple \<open>(b, g, r)\<close> that NumPy returns for \<open>frame[y, x]\<close>. It is converted
  to HSV by OpenCV's 8-bit \<open>COLOR_BGR2HSV\<close> (modelled from OpenCV's fixed-point
  algorithm: the library is not part of the repository), then classified by the source's
  cascade of HSV tests, and when none matches by the raw-channel fallback. The channels stay
  \<open>uint8\<close> in the fallback: \<open>g + 30\<close> is NumPy scalar arithmetic on \<open>uint8\<close> and wraps
  modulo 256 (NumPy 2 promotion rules), which the model keeps as \<open>8 word\<close> addition.
\<close>

unbundle bit_operations_syntax

type_synonym bgr = "u8 \<times> u8 \<times> u8"
type_synonym hsv = "u8 \<times> u8 \<times> u8"

subsection \<open>OpenCV's BGR to HSV conversion for 8-bit images\<close>

text \<open>
  \<open>saturate_cast<int>(x / y)\<close> rounds to the nearest integer. For the two tables below the
  quotient is never exactly half-way between two integers (the numerators are \<open>2^13\<close> and
  \<open>2^14\<close> times an odd number and the divisors are below 256), so rounding half up agrees
  with OpenCV's rounding half to even.
\<close>

definition round_div :: "int \<Rightarrow> int \<Rightarrow> int" where
  "round_div a d = (2 * a + d) div (2 * d)"

definition sdiv_table :: "int \<Rightarrow> int" where
  "sdiv_table i = (if i = 0 then 0 else round_div (255 * 4096) i)"

definition hdiv_table180 :: "int \<Rightarrow> int" where
  "hdiv_table180 i = (if i = 0 then 0 else round_div (180 * 4096) (6 * i))"

text \<open>
  The unclamped values OpenCV computes, in the order of its loop body. \<open>vr\<close> and \<open>vg\<close> are
  the masks \<open>-1\<close> or \<open>0\<close>, and the hue numerator is selected with bitwise \<open>AND\<close> and
  \<open>NOT\<close> exactly as OpenCV writes it; \<open>>> 12\<close> on a C \<open>int\<close> is an arithmetic
  shift, i.e.\ floor division by \<open>4096\<close>.
\<close>

definition hsv_raw :: "bgr \<Rightarrow> int \<times> int \<times> int" where
  "hsv_raw px = (case px of (b8, g8, r8) \<Rightarrow>
     let b = uint b8; g = uint g8; r = uint r8;
         v = max (max b g) r;
         vmin = min (min b g) r;
         diff = v - vmin;
         vr = (if v = r then -1 else 0 :: int);
         vg = (if v = g then -1 else 0 :: int);
         s = (diff * sdiv_table v + 2048) div 4096;
         h0 = (vr AND (g - b)) +
              (NOT vr AND ((vg AND (b - r + 2 * diff)) + (NOT vg AND (r - g + 4 * diff))));
         h1 = (h0 * hdiv_table180 diff + 2048) div 4096;
         h = (if h1 < 0 then h1 + 180 else h1)
     in (h, s, v))"

text \<open>
  The stores into the \<open>uchar\<close> destination: \<open>saturate_cast<uchar>(h)\<close> clamps the hue,
  \<open>(uchar)s\<close> and \<open>(uchar)v\<close> truncate modulo 256.
\<close>

definition sat_u8 :: "int \<Rightarrow> u8" where
  "sat_u8 x = word_of_int (max 0 (min 255 x))"

definition bgr_to_hsv :: "bgr \<Rightarrow> hsv" where
  "bgr_to_hsv px = (case hsv_raw px of (h, s, v) \<Rightarrow> (sat_u8 h, word_of_int s, word_of_int v))"

subsection \<open>The classification cascade\<close>

text \<open>The HSV tests of lines 28--50, first match wins.\<close>

definition hsv_cascade :: "hsv \<Rightarrow> char option" where
  "hsv_cascade hsv = (case hsv of (h, s, v) \<Rightarrow>
     if v > 160 \<and> s < 60 then Some CHR ''W''
     else if 22 \<le> h \<and> h \<le> 38 \<and> s > 80 \<and> v > 100 then Some CHR ''Y''
     else if 5 \<le> h \<and> h \<le> 30 \<and> s > 80 then Some CHR ''O''
     else if (h \<le> 8 \<or> h \<ge> 170) \<and> s > 90 then Some CHR ''R''
     else if 45 \<le> h \<and> h \<le> 75 \<and> s > 70 then Some CHR ''G''
     else if 100 \<le> h \<and> h \<le> 125 \<and> s > 70 then Some CHR ''B''
     else None)"

text \<open>The raw-channel fallback of lines 52--63, on the \<open>uint8\<close> channels.\<close>

definition rgb_fallback :: "bgr \<Rightarrow> u8 \<Rightarrow> char" where
  "rgb_fallback px v = (case px of (b, g, r) \<Rightarrow>
     if r > g + 30 \<and> r > b + 30 then CHR ''R''
     else if g > r + 30 \<and> g > b + 30 then CHR ''G''
     else if b > r + 30 \<and> b > g + 30 then CHR ''B''
     else if v > 150 then CHR ''W''
     else CHR ''Y'')"

definition detect_color :: "bgr \<Rightarrow> char" where
  "detect_color px = (case bgr_to_hsv px of (h, s, v) \<Rightarrow>
     (case hsv_cascade (h, s, v) of Some c \<Rightarrow> c | None \<Rightarrow> rgb_fallback px v))"

text \<open>
  The reading of the fallback that the spec gives ("exceeds both others by more than 30"),
  on unbounded integers: what the code computes when the channel additions cannot wrap.
\<close>

definition rgb_fallback_int :: "bgr \<Rightarrow> u8 \<Rightarrow> char" where
  "rgb_fallback_int px v = (case px of (b8, g8, r8) \<Rightarrow>
     let b = uint b8; g = uint g8; r = uint r8 in
     if r > g + 30 \<and> r > b + 30 then CHR ''R''
     else if g > r + 30 \<and> g > b + 30 then CHR ''G''
     else if b > r + 30 \<and> b > g + 30 then CHR ''B''
     else if v > 150 then CHR ''W''
     else CHR ''Y'')"

definition detect_color_int :: "bgr \<Rightarrow> char" where
  "detect_color_int px = (case bgr_to_hsv px of (h, s, v) \<Rightarrow>
     (case hsv_cascade (h, s, v) of Some c \<Rightarrow> c | None \<Rightarrow> rgb_fallback_int px v))"


subsection \<open>Arithmetic of the conversion\<close>

lemma round_div_bounds:
  assumes "0 < d"
  shows "2 * d * round_div a d \<le> 2 * a + d \<and> 2 * a + d < 2 * d * round_div a d + 2 * d"
proof -
  have e: "2 * d * round_div a d + (2 * a + d) mod (2 * d) = 2 * a + d"
    unfolding round_div_def by (rule mult_div_mod_eq)
  have "0 \<le> (2 * a + d) mod (2 * d)" and "(2 * a + d) mod (2 * d) < 2 * d"
    using assms by simp_all
  with e show ?thesis by linarith
qed

text \<open>OpenCV's mask arithmetic selects one of the three hue numerators.\<close>

lemma mask_select:
  "((if c1 then -1 else 0 :: int) AND x) +
   (NOT (if c1 then -1 else 0) AND (((if c2 then -1 else 0) AND y) + (NOT (if c2 then -1 else 0) AND z)))
   = (if c1 then x else if c2 then y else z)"
  by simp

lemma saturation_bound:
  assumes "0 \<le> d" "d \<le> v" "v \<le> 255"
  shows "0 \<le> (d * sdiv_table v + 2048) div 4096 \<and> (d * sdiv_table v + 2048) div 4096 \<le> 255"
proof (cases "v = 0")
  case True
  then show ?thesis by (simp add: sdiv_table_def)
next
  case False
  with assms have v: "0 < v" by simp
  let ?t = "sdiv_table v"
  have t: "2 * v * ?t \<le> 2 * (255 * 4096) + v"
    and t': "2 * (255 * 4096) + v < 2 * v * ?t + 2 * v"
    using round_div_bounds [OF v, of "255 * 4096"] False by (simp_all add: sdiv_table_def)
  have t0: "0 \<le> ?t"
  proof (rule ccontr)
    assume "\<not> 0 \<le> ?t"
    then have "2 * v * ?t < 0" using v by (simp add: mult_pos_neg)
    with t' assms show False by linarith
  qed
  have "d * ?t \<le> v * ?t" using assms(2) t0 by (rule mult_right_mono)
  with t assms have up: "d * ?t + 2048 \<le> 256 * 4096 - 1" by linarith
  have lo: "0 \<le> d * ?t + 2048" using assms(1) t0 by simp
  have "(d * ?t + 2048) div 4096 \<le> (256 * 4096 - 1) div 4096"
    using up by (rule zdiv_mono1) simp
  moreover have "0 div 4096 \<le> (d * ?t + 2048) div (4096::int)"
    using lo by (rule zdiv_mono1) simp
  ultimately show ?thesis by simp
qed

lemma hue_bound:
  assumes "0 \<le> d" "d \<le> 255" "- d \<le> x" "x \<le> 5 * d"
  defines "h1 \<equiv> (x * hdiv_table180 d + 2048) div 4096"
  shows "0 \<le> (if h1 < 0 then h1 + 180 else h1) \<and> (if h1 < 0 then h1 + 180 else h1) < 180"
proof (cases "d = 0")
  case True
  then show ?thesis by (simp add: h1_def hdiv_table180_def)
next
  case False
  with assms have d: "0 < d" by simp
  let ?t = "hdiv_table180 d"
  have d6: "0 < 6 * d" using d by simp
  have t: "2 * (6 * d) * ?t \<le> 2 * (180 * 4096) + 6 * d"
    and t': "2 * (180 * 4096) + 6 * d < 2 * (6 * d) * ?t + 2 * (6 * d)"
    using round_div_bounds [OF d6, of "180 * 4096"] False by (simp_all add: hdiv_table180_def)
  have t0: "0 \<le> ?t"
  proof (rule ccontr)
    assume "\<not> 0 \<le> ?t"
    then have "2 * (6 * d) * ?t < 0" using d by (simp add: mult_pos_neg)
    with t' assms show False by linarith
  qed
  have up: "x * ?t \<le> (5 * d) * ?t" using assms(4) t0 by (rule mult_right_mono)
  have lo: "(- d) * ?t \<le> x * ?t" using assms(3) t0 by (rule mult_right_mono)
  have dt: "12 * (d * ?t) \<le> 2 * (180 * 4096) + 6 * d" using t by (simp add: algebra_simps)
  have "x * ?t + 2048 \<le> 151 * 4096 - 1" using up dt assms by (simp add: algebra_simps)
  then have "h1 \<le> (151 * 4096 - 1) div 4096" unfolding h1_def by (rule zdiv_mono1) simp
  then have h_up: "h1 \<le> 150" by simp
  have "- 31 * 4096 \<le> x * ?t + 2048" using lo dt assms by (simp add: algebra_simps)
  then have "(- 31 * 4096) div 4096 \<le> h1" unfolding h1_def by (rule zdiv_mono1) simp
  then have h_lo: "- 31 \<le> h1" by simp
  show ?thesis using h_up h_lo by auto
qed

lemma uint_u8_range: "0 \<le> uint (w :: u8) \<and> uint w \<le> 255"
  using uint_lt2p [of w] by simp

lemma uint_word_of_int_u8: "0 \<le> x \<Longrightarrow> x \<le> 255 \<Longrightarrow> uint (word_of_int x :: u8) = x"
  by (simp add: uint_word_of_int_eq take_bit_int_eq_self)

lemma hue_select_range:
  fixes b g r :: int
  defines "v \<equiv> max (max b g) r" and "diff \<equiv> max (max b g) r - min (min b g) r"
  shows "- diff \<le> (if v = r then g - b else if v = g then b - r + 2 * diff else r - g + 4 * diff)
    \<and> (if v = r then g - b else if v = g then b - r + 2 * diff else r - g + 4 * diff) \<le> 5 * diff"
  unfolding v_def diff_def by (simp add: max_def min_def)

lemma hsv_raw_range:
  "case hsv_raw px of (h, s, v) \<Rightarrow> 0 \<le> h \<and> h < 180 \<and> 0 \<le> s \<and> s \<le> 255 \<and> 0 \<le> v \<and> v \<le> 255"
proof -
  obtain b8 g8 r8 where px: "px = (b8, g8, r8)" by (cases px) auto
  define b g r where "b = uint b8" and "g = uint g8" and "r = uint r8"
  have rng: "0 \<le> b" "b \<le> 255" "0 \<le> g" "g \<le> 255" "0 \<le> r" "r \<le> 255"
    unfolding b_def g_def r_def using uint_u8_range by blast+
  define v where "v = max (max b g) r"
  define diff where "diff = v - min (min b g) r"
  define x where "x = (if v = r then g - b else if v = g then b - r + 2 * diff else r - g + 4 * diff)"
  define h1 where "h1 = (x * hdiv_table180 diff + 2048) div 4096"
  have eq: "hsv_raw px = ((if h1 < 0 then h1 + 180 else h1), (diff * sdiv_table v + 2048) div 4096, v)"
    unfolding hsv_raw_def px prod.case Let_def mask_select
    unfolding b_def [symmetric] g_def [symmetric] r_def [symmetric]
    unfolding v_def [symmetric]
    unfolding diff_def [symmetric]
    unfolding x_def [symmetric]
    unfolding h1_def [symmetric]
    by (rule refl)
  have x: "- diff \<le> x \<and> x \<le> 5 * diff"
    unfolding x_def diff_def v_def by (rule hue_select_range)
  have d: "0 \<le> diff" "diff \<le> v" "v \<le> 255" "0 \<le> v" "diff \<le> 255"
    using rng unfolding diff_def v_def by (simp_all add: max_def min_def)
  have "0 \<le> (if h1 < 0 then h1 + 180 else h1) \<and> (if h1 < 0 then h1 + 180 else h1) < 180"
    unfolding h1_def using d x by (intro hue_bound) auto
  moreover have "0 \<le> (diff * sdiv_table v + 2048) div 4096 \<and> (diff * sdiv_table v + 2048) div 4096 \<le> 255"
    using d by (intro saturation_bound) auto
  ultimately show ?thesis using eq d by simp
qed

subsection \<open>Properties of the classifier\<close>

text \<open>
  The model of the conversion loses nothing on store: the hue is below
  180, and neither the saturating hue store nor the truncating stores of saturation and
  value lose anything.
\<close>

lemma bgr_to_hsv_lossless:
  "map_prod uint (map_prod uint uint) (bgr_to_hsv px) = hsv_raw px \<and> fst (hsv_raw px) < 180"
proof -
  obtain h s v where raw: "hsv_raw px = (h, s, v)" by (cases "hsv_raw px") auto
  with hsv_raw_range [of px] have r: "0 \<le> h" "h < 180" "0 \<le> s" "s \<le> 255" "0 \<le> v" "v \<le> 255"
    by simp_all
  have "max 0 (min 255 h) = h" using r by simp
  then have "uint (sat_u8 h) = h" using r by (simp add: sat_u8_def uint_word_of_int_u8)
  then show ?thesis
    using r by (simp add: bgr_to_hsv_def raw uint_word_of_int_u8)
qed

lemma detect_color_label: "detect_color px \<in> set scan_palette"
proof -
  obtain h s v where hsv: "bgr_to_hsv px = (h, s, v)" by (cases "bgr_to_hsv px") auto
  obtain b g r where px: "px = (b, g, r)" by (cases px) auto
  show ?thesis
    unfolding detect_color_def hsv unfolding px
    by (simp add: hsv_cascade_def rgb_fallback_def scan_palette_def split: option.splits if_splits)
qed

text \<open>
  C5: the classifier is total over the scan palette: every pixel gets one of the six
  labels W, Y, O, B, G, R, never an unknown value.
\<close>

theorem detect_color_in_palette: "detect_color px \<in> set scan_palette"
  by (rule detect_color_label)

text \<open>
  C20: the HSV test for red lists the hues 0 to 8, but hues 5 to 8 with a saturation above 90
  are caught by the orange test before it; the HSV tier labels a pixel red only for hues
  below 5 or from 170 up.
\<close>

theorem hsv_cascade_red_hue: "hsv_cascade (h, s, v) = Some CHR ''R'' \<Longrightarrow> h < 5 \<or> 170 \<le> h"
  by (auto simp: hsv_cascade_def word_le_nat_alt word_less_nat_alt split: if_splits)

theorem hsv_cascade_red_hue_witness: "hsv_cascade (3, 200, 200) = Some CHR ''R'' \<and> (3::u8) < 5"
  using hsv_cascade_red_hue [of 3 200 200] by (simp add: hsv_cascade_def)

lemma uint_add_30: "uint (x :: u8) < 226 \<Longrightarrow> uint (x + 30) = uint x + 30"
  by (simp add: uint_word_ariths)

lemma uint_add_30_wrap: "226 \<le> uint (x :: u8) \<Longrightarrow> uint (x + 30) = uint x - 226"
proof -
  assume a: "226 \<le> uint x"
  have "uint (x + 30) = (uint x + uint (30 :: u8)) mod 2 ^ LENGTH(8)" by (rule uint_word_ariths(1))
  then have "uint (x + 30) = (uint x + 30) mod 256" by simp
  also have "\<dots> = ((uint x - 226) + 256) mod 256" by (simp add: algebra_simps)
  also have "\<dots> = (uint x - 226) mod 256" by (rule mod_add_self2)
  also have "\<dots> = uint x - 226" using a uint_u8_range [of x] by (intro mod_pos_pos_trivial) auto
  finally show ?thesis .
qed

lemma rgb_fallback_no_wrap:
  assumes "uint b < 226" "uint g < 226" "uint r < 226"
  shows "rgb_fallback (b, g, r) v = rgb_fallback_int (b, g, r) v"
  using assms by (simp add: rgb_fallback_def rgb_fallback_int_def Let_def word_less_def uint_add_30)

text \<open>
  C18: while every channel is below 226 the additions \<open>g + 30\<close> of the fallback cannot wrap,
  and the classifier agrees with the spec's reading on unbounded integers.
\<close>

theorem detect_color_no_wrap:
  assumes "uint b < 226" "uint g < 226" "uint r < 226"
  shows "detect_color (b, g, r) = detect_color_int (b, g, r)"
  using rgb_fallback_no_wrap [OF assms]
  by (simp add: detect_color_def detect_color_int_def split: prod.splits option.splits)

theorem detect_color_no_wrap_witness:
  "uint (10 :: u8) < 226 \<and> uint (200 :: u8) < 226 \<and> uint (40 :: u8) < 226 \<and>
   detect_color (10, 200, 40) = detect_color_int (10, 200, 40)"
  using detect_color_no_wrap [of 10 200 40] by simp

text \<open>
  C19: with the green and blue channels at 226 or more, both additions \<open>g + 30\<close> and
  \<open>b + 30\<close> of the fallback wrap: every such pixel that falls through the HSV tier and whose
  red channel exceeds the wrapped sums is labelled red, although its red channel exceeds
  neither of the others by 30 and the spec's reading of the fallback never answers red.
\<close>

theorem detect_color_wrap_red:
  assumes none: "hsv_cascade (bgr_to_hsv (b, g, r)) = None"
    and g: "226 \<le> uint g" and b: "226 \<le> uint b"
    and rg: "uint g - 226 < uint r" and rb: "uint b - 226 < uint r"
  shows "detect_color (b, g, r) = CHR ''R'' \<and> detect_color_int (b, g, r) \<noteq> CHR ''R''"
proof -
  have "g + 30 < r" and "b + 30 < r"
    using rg rb uint_add_30_wrap [OF g] uint_add_30_wrap [OF b] by (simp_all add: word_less_def)
  then have "rgb_fallback (b, g, r) v = CHR ''R''" for v by (simp add: rgb_fallback_def)
  moreover have "\<not> (uint g + 30 < uint r)" using g uint_u8_range [of r] by simp
  then have "rgb_fallback_int (b, g, r) v \<noteq> CHR ''R''" for v by (simp add: rgb_fallback_int_def Let_def)
  moreover obtain h s v where hsv: "bgr_to_hsv (b, g, r) = (h, s, v)" by (cases "bgr_to_hsv (b, g, r)") auto
  ultimately show ?thesis using none by (simp add: detect_color_def detect_color_int_def)
qed

theorem detect_color_wrap_red_witness:
  "detect_color (250, 250, 100) = CHR ''R'' \<and> detect_color_int (250, 250, 100) \<noteq> CHR ''R''"
proof -
  have n: "hsv_cascade (bgr_to_hsv (250, 250, 100)) = None" by code_simp
  show ?thesis using detect_color_wrap_red [OF n] by simp
qed

lemma primary_tables:
  "\<forall>n \<in> set [1..<256]. (int n * sdiv_table (int n) + 2048) div 4096 = 255 \<and>
     (2 * int n * hdiv_table180 (int n) + 2048) div 4096 = 60 \<and>
     (4 * int n * hdiv_table180 (int n) + 2048) div 4096 = 120"
  by code_simp

lemma primary_arith:
  assumes "x \<noteq> (0 :: u8)"
  shows "(uint x * sdiv_table (uint x) + 2048) div 4096 = 255 \<and>
     (2 * uint x * hdiv_table180 (uint x) + 2048) div 4096 = 60 \<and>
     (4 * uint x * hdiv_table180 (uint x) + 2048) div 4096 = 120"
proof -
  have r: "0 \<le> uint x" "uint x \<le> 255" using uint_u8_range [of x] by auto
  have e: "int (unat x) = uint x" by (rule uint_nat [symmetric])
  have "uint x \<noteq> 0" using assms by (simp add: word_uint_eq_iff)
  with r e have "int (unat x) \<le> 255" "int (unat x) \<noteq> 0" by simp_all
  moreover have "\<And>n. int n \<le> 255 \<Longrightarrow> int n \<noteq> 0 \<Longrightarrow> n \<in> set [1..<256]" by auto
  ultimately have "unat x \<in> set [1..<256]" by blast
  with primary_tables have "(int (unat x) * sdiv_table (int (unat x)) + 2048) div 4096 = 255 \<and>
     (2 * int (unat x) * hdiv_table180 (int (unat x)) + 2048) div 4096 = 60 \<and>
     (4 * int (unat x) * hdiv_table180 (int (unat x)) + 2048) div 4096 = 120" by blast
  then show ?thesis unfolding e .
qed

text \<open>
  C21: pure red, green and blue pixels of every non-zero intensity are classified by the HSV
  tier as red, green and blue: OpenCV gives them saturation 255 and hue 0, 60 and 120.
\<close>

theorem detect_color_primaries:
  assumes "x \<noteq> 0"
  shows "detect_color (0, 0, x) = CHR ''R'' \<and> detect_color (0, x, 0) = CHR ''G'' \<and>
         detect_color (x, 0, 0) = CHR ''B''"
proof -
  have u: "uint x \<noteq> 0" using assms by (simp add: word_uint_eq_iff)
  have r: "0 \<le> uint x" using uint_u8_range [of x] by simp
  note a = primary_arith [OF assms]
  have "hsv_raw (0, 0, x) = (0, 255, uint x)"
    using u r a by (simp add: hsv_raw_def Let_def)
  moreover have "hsv_raw (0, x, 0) = (60, 255, uint x)"
    using u r a by (simp add: hsv_raw_def Let_def)
  moreover have "hsv_raw (x, 0, 0) = (120, 255, uint x)"
    using u r a by (simp add: hsv_raw_def Let_def)
  ultimately show ?thesis
    by (simp add: detect_color_def bgr_to_hsv_def sat_u8_def hsv_cascade_def)
qed

theorem detect_color_primaries_witness:
  "detect_color (0, 0, 128) = CHR ''R'' \<and> detect_color (0, 128, 0) = CHR ''G'' \<and>
   detect_color (128, 0, 0) = CHR ''B''"
  using detect_color_primaries [of 128] by simp

subsection \<open>Grey pixels\<close>

lemma bgr_to_hsv_grey: "bgr_to_hsv (x, x, x) = (0, 0, x)"
  by (simp add: bgr_to_hsv_def hsv_raw_def Let_def sat_u8_def)

text \<open>
  C31: a grey pixel \<open>(x, x, x)\<close> has hue and saturation 0 and is labelled white when
  brighter than 150 (by the HSV white test above 160, by the fallback's brightness test
  between 151 and 160) and yellow, the fallback's default, otherwise: no grey level is
  ever labelled red, green or blue.
\<close>

theorem detect_color_grey:
  "detect_color (x, x, x) = (if x > 150 then CHR ''W'' else CHR ''Y'')"
proof (cases "x > 160")
  case True
  moreover from True have "150 < x" by (simp add: word_less_def)
  ultimately show ?thesis by (simp add: detect_color_def bgr_to_hsv_grey hsv_cascade_def)
next
  case False
  then have "uint x < 226" by (simp add: word_less_def)
  then have "rgb_fallback (x, x, x) x = rgb_fallback_int (x, x, x) x" by (intro rgb_fallback_no_wrap)
  with False show ?thesis
    by (simp add: detect_color_def bgr_to_hsv_grey hsv_cascade_def rgb_fallback_int_def Let_def)
qed

end
