(* ===== verification/Identify.thy ===== *)
theory Identify
  imports Prelude
begin

text \<open>
  FaceIdentifier: \<open>identify_face_by_center\<close> of \<open>src/RCsolver.py\<close> (lines 65--80). The
  face names are the strings \<open>'TOP'\<close>, \dots, \<open>'BACK'\<close> and \<open>'UNKNOWN'\<close> of the source,
  here the constructors of \<open>face_name\<close>; Python's \<open>None\<close> result is \<open>None\<close>. The
  dictionary \<open>face_mapping\<close> is an association list read with \<open>map_of\<close>, and
  \<open>dict.get(c, 'UNKNOWN')\<close> is the \<open>case\<close> on its result.
\<close>

datatype face_name = TOP | RIGHT | FRONT | BOTTOM | LEFT | BACK | UNKNOWN

definition face_mapping :: "(char \<times> face_name) list" where
  "face_mapping =
     [(CHR ''W'', TOP), (CHR ''G'', LEFT), (CHR ''R'', FRONT),
      (CHR ''Y'', BOTTOM), (CHR ''B'', RIGHT), (CHR ''O'', BACK)]"

definition identify_face_by_center :: "char list \<Rightarrow> face_name option" where
  "identify_face_by_center face_colors =
     (if face_colors = [] \<or> length face_colors \<noteq> 9 then None
      else Some (case map_of face_mapping (face_colors ! 4) of
                   None \<Rightarrow> UNKNOWN
                 | Some f \<Rightarrow> f))"

text \<open>The six face slots, in the order of \<open>required_faces\<close> (line 156).\<close>

definition face_slots :: "face_name list" where
  "face_slots = [TOP, RIGHT, FRONT, BOTTOM, LEFT, BACK]"

subsection \<open>The colour scheme\<close>

lemma map_of_face_mapping_palette:
  "c \<in> set scan_palette \<longleftrightarrow> (\<exists>f. map_of face_mapping c = Some f)"
  by (auto simp: face_mapping_def scan_palette_def)

lemma map_of_face_mapping_slot: "map_of face_mapping c = Some f \<Longrightarrow> f \<in> set face_slots"
  by (auto simp: face_mapping_def face_slots_def split: if_splits)

subsection \<open>Identification\<close>

lemma identify_None_iff: "identify_face_by_center fc = None \<longleftrightarrow> length fc \<noteq> 9"
  by (auto simp: identify_face_by_center_def)

lemma identify_Some_length: "identify_face_by_center fc = Some f \<Longrightarrow> length fc = 9"
  by (simp add: identify_face_by_center_def split: if_splits)

lemma identify_slot:
  "identify_face_by_center fc = Some f \<Longrightarrow> f \<noteq> UNKNOWN \<Longrightarrow> f \<in> set face_slots"
  by (auto simp: identify_face_by_center_def dest: map_of_face_mapping_slot split: if_splits option.splits)

lemma identify_centre:
  "identify_face_by_center fc = Some f \<Longrightarrow> f \<in> set face_slots \<Longrightarrow> map_of face_mapping (fc ! 4) = Some f"
  by (auto simp: identify_face_by_center_def face_slots_def split: if_splits option.splits)

lemma identify_palette_reading:
  "length fc = 9 \<Longrightarrow> set fc \<subseteq> set scan_palette \<Longrightarrow> \<exists>f \<in> set face_slots. identify_face_by_center fc = Some f"
proof -
  assume l: "length fc = 9" and p: "set fc \<subseteq> set scan_palette"
  then have "fc ! 4 \<in> set scan_palette" using nth_mem [of 4 fc] by auto
  then obtain f where m: "map_of face_mapping (fc ! 4) = Some f" using map_of_face_mapping_palette by blast
  with l show ?thesis by (auto simp: identify_face_by_center_def dest: map_of_face_mapping_slot)
qed

end
