(* ===== verification/Palette.thy ===== *)
theory Palette
  imports Prelude
begin

text \<open>
  PaletteTranslator: \<open>colorconvert\<close> of \<open>src/RCsolver.py\<close> (lines 5--21). The loop
  \<open>for i in range(54)\<close> reads \<open>colorstring[i]\<close> (an \<open>IndexError\<close> past the end of a
  shorter string) and appends the solver letter of each scan letter; a character outside
  the scan palette matches no branch and appends nothing. The \<open>print\<close> is not modelled.
\<close>

definition conv_char :: "char \<Rightarrow> string" where
  "conv_char c =
     (if c = CHR ''W'' then ''U''
      else if c = CHR ''Y'' then ''D''
      else if c = CHR ''O'' then ''B''
      else if c = CHR ''B'' then ''R''
      else if c = CHR ''G'' then ''L''
      else if c = CHR ''R'' then ''F''
      else [])"

function colorconvert_loop :: "string \<Rightarrow> nat \<Rightarrow> string \<Rightarrow> py_error + string" where
  "colorconvert_loop colorstring i cubestring =
     (if i < 54 then
        (case py_get colorstring (int i) of
           Inl e \<Rightarrow> Inl e
         | Inr c \<Rightarrow> colorconvert_loop colorstring (Suc i) (cubestring @ conv_char c))
      else Inr cubestring)"
  by pat_completeness auto
termination
  by (relation "measure (\<lambda>(_, i, _). 54 - i)") auto

declare colorconvert_loop.simps [simp del]

definition colorconvert :: "string \<Rightarrow> py_error + string" where
  "colorconvert colorstring = colorconvert_loop colorstring 0 []"

text \<open>The inverse letter map, solver palette back to scan palette (not in the source).\<close>

definition solver_to_scan :: "char \<Rightarrow> char" where
  "solver_to_scan c =
     (if c = CHR ''U'' then CHR ''W''
      else if c = CHR ''D'' then CHR ''Y''
      else if c = CHR ''B'' then CHR ''O''
      else if c = CHR ''R'' then CHR ''B''
      else if c = CHR ''L'' then CHR ''G''
      else CHR ''R'')"

subsection \<open>The loop in closed form\<close>

lemma colorconvert_loop_eq:
  "colorconvert_loop s i acc =
     (if i < 54 \<and> length s < 54 then Inl IndexError
      else Inr (acc @ concat (map conv_char (drop i (take 54 s)))))"
proof (induction s i acc rule: colorconvert_loop.induct)
  case (1 s i acc)
  show ?case
  proof (cases "i < 54")
    case True
    show ?thesis
    proof (cases "i < length s")
      case in_range: True
      then have get: "py_get s (int i) = Inr (s ! i)" by (rule py_get_nat)
      from True in_range have "i < length (take 54 s)" by simp
      then have "drop i (take 54 s) = take 54 s ! i # drop (Suc i) (take 54 s)"
        by (rule Cons_nth_drop_Suc [symmetric])
      with True have "drop i (take 54 s) = s ! i # drop (Suc i) (take 54 s)" by simp
      with "1" [OF True get] True get in_range show ?thesis
        by (simp add: colorconvert_loop.simps [of s i acc])
    next
      case False
      then have "py_get s (int i) = Inl IndexError" by (simp add: py_get_past_end)
      with True False show ?thesis by (simp add: colorconvert_loop.simps [of s i acc])
    qed
  next
    case False
    then show ?thesis by (simp add: colorconvert_loop.simps [of s i acc])
  qed
qed

text \<open>
  C26: \<open>colorconvert\<close> raises \<open>IndexError\<close> on a string shorter than 54 characters;
  otherwise it returns the concatenated solver letters of the first 54 characters.
\<close>

theorem colorconvert_closed_form:
  "colorconvert s =
     (if length s < 54 then Inl IndexError else Inr (concat (map conv_char (take 54 s))))"
  by (simp add: colorconvert_def colorconvert_loop_eq)

subsection \<open>The translation on well-formed cube strings\<close>

lemma conv_char_palette:
  "c \<in> set scan_palette \<Longrightarrow>
   \<exists>d. conv_char c = [d] \<and> d \<in> set solver_palette \<and> solver_to_scan d = c"
  by (auto simp: scan_palette_def solver_palette_def conv_char_def solver_to_scan_def)

lemma conv_char_other: "c \<notin> set scan_palette \<Longrightarrow> conv_char c = []"
  by (auto simp: scan_palette_def conv_char_def)

lemma concat_conv_char_palette:
  "set s \<subseteq> set scan_palette \<Longrightarrow>
   length (concat (map conv_char s)) = length s \<and>
   set (concat (map conv_char s)) \<subseteq> set solver_palette \<and>
   map solver_to_scan (concat (map conv_char s)) = s"
proof (induction s)
  case Nil
  then show ?case by simp
next
  case (Cons c s)
  then obtain d where "conv_char c = [d]" "d \<in> set solver_palette" "solver_to_scan d = c"
    using conv_char_palette by auto
  with Cons show ?case by simp
qed

lemma concat_conv_char_map:
  "set s \<subseteq> set scan_palette \<Longrightarrow> concat (map conv_char s) = map (\<lambda>c. hd (conv_char c)) s"
  by (induction s) (auto dest: conv_char_palette)

lemma length_concat_conv_char:
  "length (concat (map conv_char s)) = length (filter (\<lambda>c. c \<in> set scan_palette) s)"
proof (induction s)
  case Nil
  then show ?case by simp
next
  case (Cons c s)
  then show ?case
    by (cases "c \<in> set scan_palette") (auto dest: conv_char_palette simp: conv_char_other)
qed

text \<open>
  C6: on a cube string of 54 scan-palette letters the translation succeeds, keeps the
  length 54, uses only solver-palette letters, and is undone letter by letter by the inverse
  map: it is a letter-wise bijection.
\<close>

theorem colorconvert_roundtrip:
  assumes "length s = 54" and "set s \<subseteq> set scan_palette"
  shows "\<exists>t. colorconvert s = Inr t \<and> length t = 54 \<and> set t \<subseteq> set solver_palette \<and>
             map solver_to_scan t = s"
  using assms concat_conv_char_palette [OF assms(2)] by (simp add: colorconvert_def colorconvert_loop_eq)

theorem colorconvert_roundtrip_witness:
  "length (replicate 54 CHR ''G'') = 54 \<and> set (replicate 54 CHR ''G'') \<subseteq> set scan_palette \<and>
   (\<exists>t. colorconvert (replicate 54 CHR ''G'') = Inr t \<and> length t = 54 \<and>
        set t \<subseteq> set solver_palette \<and> map solver_to_scan t = replicate 54 CHR ''G'')"
  using colorconvert_roundtrip [of "replicate 54 CHR ''G''"] by (simp add: scan_palette_def)

text \<open>
  C27: a character outside the scan palette is dropped without an error: on any string of at
  least 54 characters the result has one letter per palette character among the first 54,
  so a defective cube string yields a translated string shorter than 54.
\<close>

theorem colorconvert_drops_unknown:
  "54 \<le> length s \<Longrightarrow>
   \<exists>t. colorconvert s = Inr t \<and> length t = length (filter (\<lambda>c. c \<in> set scan_palette) (take 54 s))"
  by (simp add: colorconvert_def colorconvert_loop_eq length_concat_conv_char)

theorem colorconvert_drops_unknown_witness:
  "54 \<le> length (replicate 53 CHR ''W'' @ ''K'') \<and>
   (\<exists>t. colorconvert (replicate 53 CHR ''W'' @ ''K'') = Inr t \<and> length t = 53)"
proof -
  have l: "54 \<le> length (replicate 53 CHR ''W'' @ ''K'')" by simp
  from colorconvert_drops_unknown [OF l] obtain t where
    t: "colorconvert (replicate 53 CHR ''W'' @ ''K'') = Inr t"
    "length t = length (filter (\<lambda>c. c \<in> set scan_palette) (take 54 (replicate 53 CHR ''W'' @ ''K'')))"
    by blast
  have "length (filter (\<lambda>c. c \<in> set scan_palette) (take 54 (replicate 53 CHR ''W'' @ ''K''))) = 53"
    by code_simp
  with l t show ?thesis by auto
qed

end
