(* ===== verification/Sampler.thy ===== *)
theory Sampler
  imports Classifier
begin

text \<open>
  FaceSampler: the grid sampling inside the frame loop of \<open>scan_single_face\<close> in
  \<open>src/RCsolver.py\<close> (lines 97--122). A frame is a NumPy array of shape
  \<open>(height, width, 3)\<close>: here a record of its two dimensions and its pixels, read only at
  indices below them. \<open>frame[center_y, center_x]\<close> is NumPy indexing: a negative index
  counts from the end, an index outside \<open>[-n, n)\<close> raises \<open>IndexError\<close>. Coordinates are
  Python integers (\<open>int\<close>), \<open>//\<close> is floor division (\<open>div\<close> on \<open>int\<close>). The
  rectangles and labels drawn with \<open>cv2.rectangle\<close> and \<open>cv2.putText\<close> are display
  output and are not modelled.
\<close>

record frame =
  fheight :: nat
  fwidth :: nat
  pixel :: "nat \<Rightarrow> nat \<Rightarrow> bgr"

definition grid_size :: int where
  "grid_size = 300"

text \<open>The centre of the cell in row \<open>row\<close> and column \<open>col\<close> (lines 100--115).\<close>

definition cell_center :: "nat \<Rightarrow> nat \<Rightarrow> nat \<Rightarrow> nat \<Rightarrow> int \<times> int" where
  "cell_center height width row col =
     (let start_x = int width div 2 - grid_size div 2;
          start_y = int height - grid_size - 30;
          x1 = start_x + int col * (grid_size div 3);
          y1 = start_y + int row * (grid_size div 3);
          x2 = x1 + grid_size div 3;
          y2 = y1 + grid_size div 3
      in ((x1 + x2) div 2, (y1 + y2) div 2))"

text \<open>One cell: index the frame at the centre and classify the pixel (lines 114--118).\<close>

definition sample_cell :: "frame \<Rightarrow> nat \<times> nat \<Rightarrow> py_error + char" where
  "sample_cell fr rc =
     (case rc of (row, col) \<Rightarrow>
       (case cell_center (fheight fr) (fwidth fr) row col of (center_x, center_y) \<Rightarrow>
         (case py_idx center_y (fheight fr) of
            Inl e \<Rightarrow> Inl e
          | Inr y \<Rightarrow>
              (case py_idx center_x (fwidth fr) of
                 Inl e \<Rightarrow> Inl e
               | Inr x \<Rightarrow> Inr (detect_color (pixel fr y x))))))"

text \<open>The nested \<open>for row\<close>/\<open>for col\<close> loops append one label per cell, row-major.\<close>

definition grid_cells :: "(nat \<times> nat) list" where
  "grid_cells = [(row, col). row \<leftarrow> [0, 1, 2], col \<leftarrow> [0, 1, 2]]"

fun sample_cells :: "frame \<Rightarrow> (nat \<times> nat) list \<Rightarrow> py_error + char list" where
  "sample_cells fr [] = Inr []"
| "sample_cells fr (rc # rcs) =
     (case sample_cell fr rc of
        Inl e \<Rightarrow> Inl e
      | Inr c \<Rightarrow> (case sample_cells fr rcs of Inl e \<Rightarrow> Inl e | Inr cs \<Rightarrow> Inr (c # cs)))"

definition sample_face :: "frame \<Rightarrow> py_error + char list" where
  "sample_face fr = sample_cells fr grid_cells"

subsection \<open>Geometry\<close>

lemma cell_center_eq:
  "cell_center height width row col =
     (int width div 2 - 100 + 100 * int col, int height - 280 + 100 * int row)"
proof -
  have "\<And>a :: int. (a + (a + 100)) div 2 = a + 50" by presburger
  then show ?thesis
    by (simp add: cell_center_def grid_size_def Let_def algebra_simps)
qed

lemma grid_cells_eq:
  "grid_cells = [(0, 0), (0, 1), (0, 2), (1, 0), (1, 1), (1, 2), (2, 0), (2, 1), (2, 2)]"
  by (simp add: grid_cells_def)

lemma sample_cells_all_ok:
  "(\<And>rc. rc \<in> set rcs \<Longrightarrow> sample_cell fr rc = Inr (f rc)) \<Longrightarrow> sample_cells fr rcs = Inr (map f rcs)"
  by (induction rcs) auto

lemma sample_cells_error:
  "rc \<in> set rcs \<Longrightarrow> sample_cell fr rc = Inl e \<Longrightarrow> \<exists>e'. sample_cells fr rcs = Inl e'"
  by (induction rcs) (auto split: sum.splits)

lemma sample_cells_length: "sample_cells fr rcs = Inr cs \<Longrightarrow> length cs = length rcs"
  by (induction rcs arbitrary: cs) (auto split: sum.splits)

lemma sample_cell_label: "sample_cell fr rc = Inr c \<Longrightarrow> c \<in> set scan_palette"
  by (auto simp: sample_cell_def detect_color_label split: prod.splits sum.splits)

lemma sample_cells_labels: "sample_cells fr rcs = Inr cs \<Longrightarrow> set cs \<subseteq> set scan_palette"
  by (induction rcs arbitrary: cs) (auto dest: sample_cell_label split: sum.splits)

text \<open>Every successful sampling is a reading of nine scan-palette labels.\<close>

lemma sample_face_reading:
  "sample_face fr = Inr cs \<Longrightarrow> length cs = 9 \<and> set cs \<subseteq> set scan_palette"
proof -
  assume "sample_face fr = Inr cs"
  then have "sample_cells fr grid_cells = Inr cs" by (simp add: sample_face_def)
  then have "length cs = length grid_cells" and "set cs \<subseteq> set scan_palette"
    by (rule sample_cells_length, rule sample_cells_labels)
  then show ?thesis by (simp add: grid_cells_eq)
qed

subsection \<open>Sampling\<close>

lemma sample_cell_error_value: "sample_cell fr rc = Inl e \<Longrightarrow> e = IndexError"
  by (auto simp: sample_cell_def dest: py_idx_Inl split: prod.splits sum.splits)

lemma sample_cells_error_value: "sample_cells fr rcs = Inl e \<Longrightarrow> e = IndexError"
  by (induction rcs) (auto dest: sample_cell_error_value split: sum.splits)

lemma sample_cell_eq:
  "sample_cell fr (row, col) =
     (case py_idx (int (fheight fr) - 280 + 100 * int row) (fheight fr) of
        Inl e \<Rightarrow> Inl e
      | Inr y \<Rightarrow> (case py_idx (int (fwidth fr) div 2 - 100 + 100 * int col) (fwidth fr) of
                  Inl e \<Rightarrow> Inl e
                | Inr x \<Rightarrow> Inr (detect_color (pixel fr y x))))"
  by (simp add: sample_cell_def cell_center_eq)

lemma py_idx_grid_column:
  "201 \<le> w \<Longrightarrow> col \<le> 2 \<Longrightarrow>
   py_idx (int w div 2 - 100 + 100 * int col) w = Inr (w div 2 - 100 + 100 * col)"
proof -
  assume "201 \<le> w" "col \<le> 2"
  moreover have "100 \<le> w div 2" "w div 2 + 100 < w" using \<open>201 \<le> w\<close> by auto
  ultimately show ?thesis by (subst py_idx_in_range) (auto simp: zdiv_int [symmetric])
qed

lemma sample_cell_in_frame:
  assumes "280 \<le> fheight fr" and "201 \<le> fwidth fr" and "row \<le> 2" and "col \<le> 2"
  shows "sample_cell fr (row, col) =
    Inr (detect_color (pixel fr (fheight fr - 280 + 100 * row) (fwidth fr div 2 - 100 + 100 * col)))"
proof -
  have y: "py_idx (int (fheight fr) - 280 + 100 * int row) (fheight fr) = Inr (fheight fr - 280 + 100 * row)"
    using assms by (subst py_idx_in_range) auto
  have x: "py_idx (int (fwidth fr) div 2 - 100 + 100 * int col) (fwidth fr) = Inr (fwidth fr div 2 - 100 + 100 * col)"
    using assms by (intro py_idx_grid_column) auto
  show ?thesis by (simp add: sample_cell_eq y x)
qed

text \<open>
  C22: on a frame at least 280 pixels high and 201 wide every cell centre is inside the
  frame, and sampling returns nine labels, row-major, each the classification of the pixel
  at row \<open>height - 280 + 100 row\<close> and column \<open>width div 2 - 100 + 100 col\<close>.
\<close>

theorem sample_face_in_frame:
  assumes "280 \<le> fheight fr" and "201 \<le> fwidth fr"
  shows "sample_face fr =
    Inr (map (\<lambda>(row, col). detect_color (pixel fr (fheight fr - 280 + 100 * row) (fwidth fr div 2 - 100 + 100 * col)))
             grid_cells)"
  unfolding sample_face_def
proof (rule sample_cells_all_ok)
  fix rc assume "rc \<in> set grid_cells"
  then obtain row col where rc: "rc = (row, col)" and "row \<le> 2" and "col \<le> 2"
    by (auto simp: grid_cells_eq)
  with assms show "sample_cell fr rc = Inr ((\<lambda>(row, col). detect_color (pixel fr (fheight fr - 280 + 100 * row) (fwidth fr div 2 - 100 + 100 * col))) rc)"
    by (simp add: sample_cell_in_frame)
qed

theorem sample_face_in_frame_witness:
  "280 \<le> fheight \<lparr>fheight = 480, fwidth = 640, pixel = \<lambda>_ _. (255, 0, 0)\<rparr> \<and>
   201 \<le> fwidth \<lparr>fheight = 480, fwidth = 640, pixel = \<lambda>_ _. (255, 0, 0)\<rparr> \<and>
   sample_face \<lparr>fheight = 480, fwidth = 640, pixel = \<lambda>_ _. (255, 0, 0)\<rparr> =
     Inr (map (\<lambda>_. detect_color (255, 0, 0)) grid_cells)"
  using sample_face_in_frame [of "\<lparr>fheight = 480, fwidth = 640, pixel = \<lambda>_ _. (255, 0, 0)\<rparr>"]
  by (simp add: case_prod_beta)

text \<open>
  C23: the grid is not clamped to the frame: on a frame at most 200 pixels wide the centre of
  the right column is at or past the right edge and sampling raises \<open>IndexError\<close>.
\<close>

theorem sample_face_narrow_frame: "fwidth fr \<le> 200 \<Longrightarrow> sample_face fr = Inl IndexError"
proof -
  assume w: "fwidth fr \<le> 200"
  have "int (fwidth fr) \<le> int (fwidth fr) div 2 - 100 + 100 * int (2::nat)" using w by simp
  then have "py_idx (int (fwidth fr) div 2 - 100 + 100 * int (2::nat)) (fwidth fr) = Inl IndexError"
    by (simp add: py_idx_def)
  then have "\<exists>e. sample_cell fr (0, 2) = Inl e"
    by (simp add: sample_cell_eq split: sum.splits)
  moreover have "(0, 2) \<in> set grid_cells" by (simp add: grid_cells_eq)
  ultimately obtain e where "sample_face fr = Inl e"
    unfolding sample_face_def using sample_cells_error by blast
  then show ?thesis using sample_cells_error_value unfolding sample_face_def by blast
qed

theorem sample_face_narrow_frame_witness:
  "fwidth \<lparr>fheight = 480, fwidth = 200, pixel = \<lambda>_ _. (0, 0, 0)\<rparr> \<le> 200 \<and>
   sample_face \<lparr>fheight = 480, fwidth = 200, pixel = \<lambda>_ _. (0, 0, 0)\<rparr> = Inl IndexError"
  using sample_face_narrow_frame [of "\<lparr>fheight = 480, fwidth = 200, pixel = \<lambda>_ _. (0, 0, 0)\<rparr>"] by simp

text \<open>
  C24: on a frame between 140 and 279 pixels high the top row of cells lies above the frame,
  and NumPy's negative indexing silently reads the top-left label from row
  \<open>2 height - 280\<close> near the bottom instead of failing.
\<close>

theorem sample_face_short_frame_wraps:
  assumes "140 \<le> fheight fr" and "fheight fr < 280" and "201 \<le> fwidth fr"
  shows "\<exists>cs. sample_face fr = Inr cs \<and>
           cs ! 0 = detect_color (pixel fr (2 * fheight fr - 280) (fwidth fr div 2 - 100))"
proof -
  let ?f = "\<lambda>(row, col). detect_color (pixel fr (projr (py_idx (int (fheight fr) - 280 + 100 * int row) (fheight fr)))
                                                (fwidth fr div 2 - 100 + 100 * col))"
  have ok: "sample_face fr = Inr (map ?f grid_cells)"
    unfolding sample_face_def
  proof (rule sample_cells_all_ok)
    fix rc assume "rc \<in> set grid_cells"
    then obtain row col where rc: "rc = (row, col)" and r: "row \<le> 2" and c: "col \<le> 2"
      by (auto simp: grid_cells_eq)
    have "\<not> (int (fheight fr) - 280 + 100 * int row < - int (fheight fr) \<or>
             int (fheight fr) \<le> int (fheight fr) - 280 + 100 * int row)"
      using assms r by auto
    then obtain y where y: "py_idx (int (fheight fr) - 280 + 100 * int row) (fheight fr) = Inr y"
      using py_idx_error_iff by (metis sumE)
    have x: "py_idx (int (fwidth fr) div 2 - 100 + 100 * int col) (fwidth fr) = Inr (fwidth fr div 2 - 100 + 100 * col)"
      using assms c by (intro py_idx_grid_column) auto
    show "sample_cell fr rc = Inr (?f rc)"
      by (simp add: rc sample_cell_eq y x)
  qed
  have "py_idx (int (fheight fr) - 280 + 100 * int (0::nat)) (fheight fr) = Inr (2 * fheight fr - 280)"
    using assms by (subst py_idx_negative) auto
  then have "map ?f grid_cells ! 0 = detect_color (pixel fr (2 * fheight fr - 280) (fwidth fr div 2 - 100))"
    by (simp add: grid_cells_eq)
  with ok show ?thesis by blast
qed

theorem sample_face_short_frame_wraps_witness:
  "140 \<le> fheight \<lparr>fheight = 200, fwidth = 640, pixel = \<lambda>y x. if y = 120 then (255, 0, 0) else (0, 0, 255)\<rparr> \<and>
   fheight \<lparr>fheight = 200, fwidth = 640, pixel = \<lambda>y x. if y = 120 then (255, 0, 0) else (0, 0, 255)\<rparr> < 280 \<and>
   201 \<le> fwidth \<lparr>fheight = 200, fwidth = 640, pixel = \<lambda>y x. if y = 120 then (255, 0, 0) else (0, 0, 255)\<rparr> \<and>
   (\<exists>cs. sample_face \<lparr>fheight = 200, fwidth = 640, pixel = \<lambda>y x. if y = 120 then (255, 0, 0) else (0, 0, 255)\<rparr> = Inr cs \<and>
         cs ! 0 = detect_color (255, 0, 0))"
  using sample_face_short_frame_wraps [of "\<lparr>fheight = 200, fwidth = 640, pixel = \<lambda>y x. if y = 120 then (255, 0, 0) else (0, 0, 255)\<rparr>"]
  by simp

end
