(* ===== verification/Capture.thy ===== *)
theory Capture
  imports Sampler
begin

text \<open>
  CaptureSession: \<open>scan_single_face\<close> of \<open>src/RCsolver.py\<close> (lines 82--150). The camera
  is an input: whether \<open>cap.isOpened()\<close> holds, and the stream of events the loop reads, one
  per iteration: a failed \<open>cap.read()\<close>, or a frame together with the raw value
  \<open>cv2.waitKey(30)\<close> returns after it is shown. The loop state is the pair of locals
  \<open>captured\<close> and \<open>face_colors\<close>; \<open>face_colors\<close> is a list, or \<open>None\<close> after a quit.
  One iteration is \<open>session_step\<close>; it continues, breaks out of the loop, or lets the
  \<open>IndexError\<close> of the sampler escape. The loop over a finite prefix of the stream is
  \<open>session_loop\<close>. Drawing, \<open>imshow\<close> and the console messages are output only.

  The spec's state machine (AwaitingCapture, Captured, Confirmed, Cancelled) is the
  inductive relation \<open>capture_spec\<close>; \<open>abs_state\<close>, \<open>abs_event\<close> and \<open>abs_step\<close> map the
  code's states and events onto it.
\<close>

record session =
  captured :: bool
  face_colors :: "char list option"

datatype event = ReadFail | Frame frame int

datatype 's step = Next 's | Stop 's | Raise py_error

text \<open>\<open>cv2.waitKey(30) & 0xFF\<close> (line 137).\<close>

definition key_of :: "int \<Rightarrow> int" where
  "key_of k = k AND 255"

definition session_init :: session where
  "session_init = \<lparr>captured = False, face_colors = Some []\<rparr>"

text \<open>
  One pass of \<open>while True\<close> (lines 93--146): the read, the sampling of the grid, and the
  key dispatch. \<open>ord(' ') = 32\<close>, \<open>ord('\r') = 13\<close>, \<open>ord('q') = 113\<close>.
\<close>

definition session_step :: "session \<Rightarrow> event \<Rightarrow> session step" where
  "session_step st ev =
     (case ev of
        ReadFail \<Rightarrow> Stop st
      | Frame fr k \<Rightarrow>
          (case sample_face fr of
             Inl e \<Rightarrow> Raise e
           | Inr colors \<Rightarrow>
               (let key = key_of k in
                if key = 32 \<and> \<not> captured st then
                  Next (st\<lparr>face_colors := Some colors, captured := True\<rparr>)
                else if key = 13 \<and> captured st then Stop st
                else if key = 113 then Stop (st\<lparr>face_colors := None\<rparr>)
                else Next st)))"

fun session_loop :: "session \<Rightarrow> event list \<Rightarrow> char list option run" where
  "session_loop st [] = Waiting"
| "session_loop st (ev # evs) =
     (case session_step st ev of
        Next st' \<Rightarrow> session_loop st' evs
      | Stop st' \<Rightarrow> Done (face_colors st')
      | Raise e \<Rightarrow> Raised e)"

text \<open>
  The whole function: \<open>return None\<close> when the camera does not open, otherwise the loop;
  \<open>cap.release()\<close> (line 148) runs only when the loop is left by \<open>break\<close>. The second
  component records whether it ran.
\<close>

definition scan_single_face :: "bool \<Rightarrow> event list \<Rightarrow> char list option run \<times> bool" where
  "scan_single_face opened evs =
     (if \<not> opened then (Done None, False)
      else (case session_loop session_init evs of
              Done r \<Rightarrow> (Done r, True)
            | Raised e \<Rightarrow> (Raised e, False)
            | Waiting \<Rightarrow> (Waiting, False)))"

subsection \<open>The spec's capture protocol\<close>

datatype cstate = AwaitingCapture | Captured "char list" | Confirmed "char list" | Cancelled

datatype cinput = CaptureKey "char list" | ConfirmKey | QuitKey | NoFrame | OtherKey

inductive capture_spec :: "cstate \<Rightarrow> cinput \<Rightarrow> cstate \<Rightarrow> bool" where
  capture: "capture_spec AwaitingCapture (CaptureKey cs) (Captured cs)"
| quit_awaiting: "capture_spec AwaitingCapture QuitKey Cancelled"
| no_frame_awaiting: "capture_spec AwaitingCapture NoFrame Cancelled"
| idle_awaiting: "i = ConfirmKey \<or> i = OtherKey \<Longrightarrow> capture_spec AwaitingCapture i AwaitingCapture"
| confirm: "capture_spec (Captured cs) ConfirmKey (Confirmed cs)"
| quit_captured: "capture_spec (Captured cs) QuitKey Cancelled"
| no_frame_captured: "capture_spec (Captured cs) NoFrame Cancelled"
| idle_captured: "i = CaptureKey cs' \<or> i = OtherKey \<Longrightarrow> capture_spec (Captured cs) i (Captured cs)"

inductive_cases capture_spec_captured_NoFrame: "capture_spec (Captured cs) NoFrame t"

definition key_input :: "int \<Rightarrow> char list \<Rightarrow> cinput" where
  "key_input key colors =
     (if key = 32 then CaptureKey colors
      else if key = 13 then ConfirmKey
      else if key = 113 then QuitKey
      else OtherKey)"

definition abs_event :: "event \<Rightarrow> cinput option" where
  "abs_event ev =
     (case ev of
        ReadFail \<Rightarrow> Some NoFrame
      | Frame fr k \<Rightarrow>
          (case sample_face fr of Inl _ \<Rightarrow> None | Inr colors \<Rightarrow> Some (key_input (key_of k) colors)))"

definition abs_state :: "session \<Rightarrow> cstate" where
  "abs_state st =
     (if captured st then Captured (case face_colors st of Some cs \<Rightarrow> cs | None \<Rightarrow> [])
      else AwaitingCapture)"

definition abs_result :: "char list option \<Rightarrow> cstate" where
  "abs_result r = (case r of None \<Rightarrow> Cancelled | Some [] \<Rightarrow> Cancelled | Some cs \<Rightarrow> Confirmed cs)"

fun abs_step :: "session step \<Rightarrow> cstate option" where
  "abs_step (Next st) = Some (abs_state st)"
| "abs_step (Stop st) = Some (abs_result (face_colors st))"
| "abs_step (Raise e) = None"

text \<open>What the loop keeps true between iterations.\<close>

definition session_inv :: "session \<Rightarrow> bool" where
  "session_inv st \<longleftrightarrow>
     (if captured st then (\<exists>cs. face_colors st = Some cs \<and> length cs = 9 \<and> set cs \<subseteq> set scan_palette)
      else face_colors st = Some [])"

inductive session_reach :: "session \<Rightarrow> bool" where
  init: "session_reach session_init"
| step: "session_reach st \<Longrightarrow> session_step st ev = Next st' \<Longrightarrow> session_reach st'"

text \<open>
  Auxiliary predicates on readings and events: a reading the loop can return, an event the
  sampler can process, an event that ends the loop whatever the state, and a frame whose
  key neither confirms nor quits.
\<close>

definition valid_reading :: "char list option \<Rightarrow> bool" where
  "valid_reading r =
     (case r of None \<Rightarrow> True | Some cs \<Rightarrow> cs = [] \<or> (length cs = 9 \<and> set cs \<subseteq> set scan_palette))"

definition sampleable :: "event \<Rightarrow> bool" where
  "sampleable ev = (case ev of ReadFail \<Rightarrow> True | Frame fr k \<Rightarrow> (\<exists>cs. sample_face fr = Inr cs))"

definition ends_session :: "event \<Rightarrow> bool" where
  "ends_session ev = (case ev of ReadFail \<Rightarrow> True | Frame fr k \<Rightarrow> key_of k = 113)"

definition passive_frame :: "event \<Rightarrow> bool" where
  "passive_frame ev =
     (case ev of ReadFail \<Rightarrow> False
      | Frame fr k \<Rightarrow> (\<exists>cs. sample_face fr = Inr cs) \<and> key_of k \<noteq> 13 \<and> key_of k \<noteq> 113)"

text \<open>An abstract input some camera event produces: a capture key needs a frame whose grid
  reads the captured colours.\<close>

definition realisable :: "cinput \<Rightarrow> bool" where
  "realisable i = (case i of CaptureKey cs \<Rightarrow> \<exists>fr. sample_face fr = Inr cs | _ \<Rightarrow> True)"

text \<open>Two test frames for the witnesses: a uniformly blue VGA frame and a 200-pixel-wide one.\<close>

definition blue_frame :: frame where
  "blue_frame = \<lparr>fheight = 480, fwidth = 640, pixel = \<lambda>_ _. (255, 0, 0)\<rparr>"

definition narrow_frame :: frame where
  "narrow_frame = \<lparr>fheight = 480, fwidth = 200, pixel = \<lambda>_ _. (0, 0, 0)\<rparr>"

subsection \<open>Invariant, refinement and progress of the loop\<close>

lemma session_init_inv: "session_inv session_init"
  by (simp add: session_inv_def session_init_def)

lemma session_step_inv:
  "session_inv st \<Longrightarrow> session_step st ev = Next st' \<Longrightarrow> session_inv st'"
  by (auto simp: session_step_def session_inv_def Let_def dest: sample_face_reading
           split: event.splits sum.splits if_splits)

text \<open>
  C9: in every state the loop reaches, \<open>face_colors\<close> is the empty list before a capture
  and a nine-label scan-palette reading after it.
\<close>

theorem session_reach_inv: "session_reach st \<Longrightarrow> session_inv st"
proof (induction rule: session_reach.induct)
  case init
  show ?case by (rule session_init_inv)
next
  case (step st ev st')
  then show ?case by (blast intro: session_step_inv)
qed

text \<open>
  C4: every iteration that continues or breaks is a transition of the spec's capture
  protocol, on the abstraction of its state, its event and its outcome, except a failed read
  after a capture (C16). A sampler exception (no abstract input) is outside the protocol.
\<close>

theorem session_step_refines:
  assumes "session_inv st" and "\<not> (captured st \<and> ev = ReadFail)"
    and "abs_step (session_step st ev) = Some t"
  shows "\<exists>i. abs_event ev = Some i \<and> capture_spec (abs_state st) i t"
proof (cases ev)
  case ReadFail
  with assms have "\<not> captured st" "face_colors st = Some []" by (auto simp: session_inv_def)
  with assms ReadFail show ?thesis
    by (auto simp: session_step_def abs_event_def abs_state_def abs_result_def intro: capture_spec.intros)
next
  case (Frame fr k)
  show ?thesis
  proof (cases "sample_face fr")
    case (Inl e)
    with assms Frame show ?thesis by (simp add: session_step_def)
  next
    case (Inr colors)
    then have rd: "length colors = 9" by (auto dest: sample_face_reading)
    show ?thesis
    proof (cases "captured st")
      case True
      with assms(1) obtain cs where cs: "face_colors st = Some cs" "length cs = 9"
        by (auto simp: session_inv_def)
      with True assms(3) Frame Inr show ?thesis
        by (auto simp: session_step_def abs_event_def abs_state_def abs_result_def key_input_def Let_def
                 intro: capture_spec.intros split: if_splits list.splits)
    next
      case False
      with assms(1) have "face_colors st = Some []" by (simp add: session_inv_def)
      with False assms(3) Frame Inr rd show ?thesis
        by (auto simp: session_step_def abs_event_def abs_state_def abs_result_def key_input_def Let_def
                 intro: capture_spec.intros split: if_splits list.splits)
    qed
  qed
qed

lemma sample_blue_frame: "sample_face blue_frame = Inr ''BBBBBBBBB''"
  by code_simp

lemma abs_event_blue:
  "abs_event (Frame blue_frame k) = Some (key_input (key_of k) ''BBBBBBBBB'')"
  by (simp add: abs_event_def sample_blue_frame)

lemma session_step_complete_awaiting:
  assumes inv: "session_inv st" and nc: "\<not> captured st"
    and spec: "capture_spec AwaitingCapture i t" and real: "realisable i"
  shows "\<exists>ev. abs_event ev = Some i \<and> abs_step (session_step st ev) = Some t"
  using spec
proof cases
  case (capture cs)
  with real obtain fr where fr: "sample_face fr = Inr cs" by (auto simp: realisable_def)
  with capture nc have "abs_event (Frame fr 32) = Some i \<and> abs_step (session_step st (Frame fr 32)) = Some t"
    by (simp add: abs_event_def session_step_def key_of_def key_input_def abs_state_def)
  then show ?thesis by blast
next
  case quit_awaiting
  then have "abs_event (Frame blue_frame 113) = Some i \<and>
      abs_step (session_step st (Frame blue_frame 113)) = Some t"
    by (simp add: abs_event_blue session_step_def sample_blue_frame key_of_def key_input_def abs_result_def)
  then show ?thesis by blast
next
  case no_frame_awaiting
  with inv nc have "abs_event ReadFail = Some i \<and> abs_step (session_step st ReadFail) = Some t"
    by (simp add: abs_event_def session_step_def abs_result_def session_inv_def)
  then show ?thesis by blast
next
  case idle_awaiting
  obtain k where "k = (if i = ConfirmKey then 13 else 0 :: int)" by blast
  with idle_awaiting nc have "abs_event (Frame blue_frame k) = Some i \<and>
      abs_step (session_step st (Frame blue_frame k)) = Some t"
    by (auto simp: abs_event_blue session_step_def sample_blue_frame key_of_def key_input_def abs_state_def)
  then show ?thesis by blast
qed

lemma session_step_complete_captured:
  assumes inv: "session_inv st" and c: "captured st" and fc: "face_colors st = Some cs"
    and spec: "capture_spec (Captured cs) i t" and real: "realisable i"
    and nf: "i \<noteq> NoFrame"
  shows "\<exists>ev. abs_event ev = Some i \<and> abs_step (session_step st ev) = Some t"
  using spec
proof cases
  case confirm
  from inv c fc have "length cs = 9" by (auto simp: session_inv_def)
  with c fc confirm have "abs_event (Frame blue_frame 13) = Some i \<and>
      abs_step (session_step st (Frame blue_frame 13)) = Some t"
    by (auto simp: abs_event_blue session_step_def sample_blue_frame key_of_def key_input_def abs_result_def
             split: list.splits)
  then show ?thesis by blast
next
  case quit_captured
  then have "abs_event (Frame blue_frame 113) = Some i \<and>
      abs_step (session_step st (Frame blue_frame 113)) = Some t"
    by (simp add: abs_event_blue session_step_def sample_blue_frame key_of_def key_input_def abs_result_def)
  then show ?thesis by blast
next
  case no_frame_captured
  with nf show ?thesis by simp
next
  case (idle_captured cs')
  then have "i = CaptureKey cs' \<or> i = OtherKey" by blast
  then show ?thesis
  proof
    assume i: "i = CaptureKey cs'"
    with real obtain fr where fr: "sample_face fr = Inr cs'" by (auto simp: realisable_def)
    with i c fc idle_captured have "abs_event (Frame fr 32) = Some i \<and>
        abs_step (session_step st (Frame fr 32)) = Some t"
      by (simp add: abs_event_def session_step_def key_of_def key_input_def abs_state_def)
    then show ?thesis by blast
  next
    assume i: "i = OtherKey"
    with c fc idle_captured have "abs_event (Frame blue_frame 0) = Some i \<and>
        abs_step (session_step st (Frame blue_frame 0)) = Some t"
      by (simp add: abs_event_blue session_step_def sample_blue_frame key_of_def key_input_def abs_state_def)
    then show ?thesis by blast
  qed
qed

text \<open>
  C33: conversely, every transition the spec's protocol allows from the abstract state of the
  loop is taken by some camera event, with one exception: a missing frame after a capture,
  which the code treats as a confirmation (C16). The capture itself needs a frame whose grid
  reads the captured colours.
\<close>

theorem session_step_complete:
  assumes inv: "session_inv st" and spec: "capture_spec (abs_state st) i t"
    and real: "realisable i" and nf: "\<not> (captured st \<and> i = NoFrame)"
  shows "\<exists>ev. abs_event ev = Some i \<and> abs_step (session_step st ev) = Some t"
proof (cases "captured st")
  case True
  with inv obtain cs where fc: "face_colors st = Some cs" by (auto simp: session_inv_def)
  with True spec nf have "capture_spec (Captured cs) i t" "i \<noteq> NoFrame" by (auto simp: abs_state_def)
  with inv True fc real show ?thesis by (intro session_step_complete_captured)
next
  case False
  with spec have "capture_spec AwaitingCapture i t" by (simp add: abs_state_def)
  with inv False real show ?thesis by (intro session_step_complete_awaiting)
qed

theorem session_step_complete_witness:
  "\<exists>ev. abs_event ev = Some ConfirmKey \<and> abs_step (session_step session_init ev) = Some AwaitingCapture"
proof -
  have s: "capture_spec (abs_state session_init) ConfirmKey AwaitingCapture"
    by (simp add: abs_state_def session_init_def capture_spec.idle_awaiting)
  have r: "realisable ConfirmKey" by (simp add: realisable_def)
  have n: "\<not> (captured session_init \<and> ConfirmKey = NoFrame)" by simp
  show ?thesis using session_step_complete [OF session_init_inv s r n] .
qed

text \<open>
  C16: a failed \<open>cap.read()\<close> after a capture breaks out of the loop with the captured
  reading as the result, i.e.\ as Confirmed, where the spec's protocol allows only Cancelled.
\<close>

theorem session_read_fail_after_capture:
  assumes "session_inv st" and "captured st"
  shows "abs_step (session_step st ReadFail) = Some (Confirmed (the (face_colors st))) \<and>
         \<not> capture_spec (abs_state st) NoFrame (Confirmed (the (face_colors st)))"
proof -
  from assms obtain cs where cs: "face_colors st = Some cs" "length cs = 9"
    by (auto simp: session_inv_def)
  then have "abs_result (Some cs) = Confirmed cs" by (cases cs) (auto simp: abs_result_def)
  moreover have "\<not> capture_spec (Captured cs) NoFrame (Confirmed cs)"
    by (auto elim: capture_spec_captured_NoFrame)
  ultimately show ?thesis using assms cs by (simp add: session_step_def abs_state_def)
qed

theorem session_read_fail_after_capture_witness:
  "session_inv \<lparr>captured = True, face_colors = Some ''WWWWWWWWW''\<rparr> \<and>
   captured \<lparr>captured = True, face_colors = Some ''WWWWWWWWW''\<rparr> \<and>
   abs_step (session_step \<lparr>captured = True, face_colors = Some ''WWWWWWWWW''\<rparr> ReadFail) =
     Some (Confirmed ''WWWWWWWWW'') \<and>
   \<not> capture_spec (abs_state \<lparr>captured = True, face_colors = Some ''WWWWWWWWW''\<rparr>) NoFrame
       (Confirmed ''WWWWWWWWW'')"
proof -
  have inv: "session_inv \<lparr>captured = True, face_colors = Some ''WWWWWWWWW''\<rparr>"
    by (simp add: session_inv_def scan_palette_def)
  show ?thesis
    using session_read_fail_after_capture [OF inv] inv by simp
qed

lemma session_step_Stop_valid:
  "session_inv st \<Longrightarrow> session_step st ev = Stop st' \<Longrightarrow> valid_reading (face_colors st')"
  by (auto simp: session_step_def session_inv_def valid_reading_def Let_def
           split: event.splits sum.splits if_splits)

lemma session_loop_valid:
  "session_inv st \<Longrightarrow> session_loop st evs = Done r \<Longrightarrow> valid_reading r"
proof (induction evs arbitrary: st)
  case Nil
  then show ?case by simp
next
  case (Cons ev evs)
  show ?case
  proof (cases "session_step st ev")
    case (Next st')
    with Cons.prems have "session_inv st'" by (blast intro: session_step_inv)
    with Cons.IH Cons.prems Next show ?thesis by simp
  next
    case (Stop st')
    with Cons.prems show ?thesis by (auto intro: session_step_Stop_valid)
  next
    case (Raise e)
    with Cons.prems show ?thesis by simp
  qed
qed

text \<open>
  C14: the capture loop returns as soon as its input contains a failed read or a frame with
  the quit key, provided every frame before can be sampled.
\<close>

theorem session_loop_terminates:
  "(\<forall>ev \<in> set evs. sampleable ev) \<Longrightarrow> (\<exists>ev \<in> set evs. ends_session ev) \<Longrightarrow>
   \<exists>r. session_loop st evs = Done r"
proof (induction evs arbitrary: st)
  case Nil
  then show ?case by simp
next
  case (Cons ev evs)
  show ?case
  proof (cases "ends_session ev")
    case True
    with Cons.prems(1) show ?thesis
      by (auto simp: ends_session_def sampleable_def session_step_def Let_def
               split: event.splits if_splits)
  next
    case False
    with Cons.prems have "\<exists>ev \<in> set evs. ends_session ev" by auto
    with Cons.prems Cons.IH show ?thesis
      by (auto simp: sampleable_def session_step_def Let_def
               split: event.splits step.splits sum.splits if_splits)
  qed
qed

lemma session_loop_passive:
  "captured st \<Longrightarrow> (\<forall>ev \<in> set mid. passive_frame ev) \<Longrightarrow>
   session_loop st (mid @ evs) = session_loop st evs"
proof (induction mid)
  case Nil
  then show ?case by simp
next
  case (Cons ev mid)
  then obtain fr k cs where ev: "ev = Frame fr k" "sample_face fr = Inr cs"
    "key_of k \<noteq> 13" "key_of k \<noteq> 113"
    by (auto simp: passive_frame_def split: event.splits)
  with Cons show ?case by (simp add: session_step_def Let_def)
qed

text \<open>
  C15: a capture key followed, after any frames that neither confirm nor quit (further
  capture keys included), by the confirm key returns exactly the snapshot taken at the
  capture: later frames never overwrite it.
\<close>

theorem session_capture_confirm:
  assumes "sample_face fr1 = Inr cs" and "key_of k1 = 32"
    and "\<forall>ev \<in> set mid. passive_frame ev"
    and "sample_face fr2 = Inr cs2" and "key_of k2 = 13"
  shows "session_loop session_init (Frame fr1 k1 # mid @ Frame fr2 k2 # evs) = Done (Some cs)"
proof -
  let ?st = "session_init\<lparr>face_colors := Some cs, captured := True\<rparr>"
  have "session_step session_init (Frame fr1 k1) = Next ?st"
    using assms(1,2) by (simp add: session_step_def session_init_def)
  moreover have "session_loop ?st (mid @ Frame fr2 k2 # evs) = session_loop ?st (Frame fr2 k2 # evs)"
    using assms(3) by (intro session_loop_passive) simp
  moreover have "session_step ?st (Frame fr2 k2) = Stop ?st"
    using assms(4,5) by (simp add: session_step_def)
  ultimately show ?thesis by simp
qed

text \<open>
  C13: what \<open>scan_single_face\<close> returns is a valid reading: \<open>None\<close> (camera closed or quit),
  the empty list (the camera stopped before a capture), or nine letters of the scan palette.
\<close>

theorem scan_single_face_valid:
  "fst (scan_single_face opened evs) = Done r \<Longrightarrow> valid_reading r"
  using session_loop_valid [OF session_init_inv]
  by (auto simp: scan_single_face_def valid_reading_def split: if_splits run.splits)

lemma scan_single_face_narrow_frame:
  "scan_single_face True [Frame \<lparr>fheight = 480, fwidth = 200, pixel = \<lambda>_ _. (0, 0, 0)\<rparr> 32] =
     (Raised IndexError, False)"
proof -
  have "sample_face \<lparr>fheight = 480, fwidth = 200, pixel = \<lambda>_ _. (0, 0, 0)\<rparr> = Inl IndexError"
    by code_simp
  then show ?thesis by (simp add: scan_single_face_def session_step_def)
qed

subsection \<open>Witnesses\<close>

theorem session_reach_inv_witness:
  "session_reach (session_init\<lparr>face_colors := Some ''BBBBBBBBB'', captured := True\<rparr>) \<and>
   session_inv (session_init\<lparr>face_colors := Some ''BBBBBBBBB'', captured := True\<rparr>)"
proof -
  have "session_step session_init (Frame blue_frame 32) =
        Next (session_init\<lparr>face_colors := Some ''BBBBBBBBB'', captured := True\<rparr>)"
    by (simp add: session_step_def sample_blue_frame session_init_def key_of_def)
  then have r: "session_reach (session_init\<lparr>face_colors := Some ''BBBBBBBBB'', captured := True\<rparr>)"
    by (rule session_reach.step [OF session_reach.init])
  show ?thesis using r session_reach_inv [OF r] by simp
qed

theorem session_step_refines_witness:
  "\<exists>i. abs_event (Frame blue_frame 32) = Some i \<and>
       capture_spec (abs_state session_init) i (Captured ''BBBBBBBBB'')"
proof -
  have inv: "session_inv session_init" by (rule session_init_inv)
  have nf: "\<not> (captured session_init \<and> Frame blue_frame 32 = ReadFail)" by simp
  have st: "abs_step (session_step session_init (Frame blue_frame 32)) = Some (Captured ''BBBBBBBBB'')"
    by (simp add: session_step_def sample_blue_frame session_init_def key_of_def abs_state_def)
  show ?thesis using session_step_refines [OF inv nf st] .
qed

theorem session_loop_terminates_witness:
  "\<exists>r. session_loop session_init [Frame blue_frame 113] = Done r"
proof -
  have a: "\<forall>ev \<in> set [Frame blue_frame 113]. sampleable ev"
    by (simp add: sampleable_def sample_blue_frame)
  have b: "\<exists>ev \<in> set [Frame blue_frame 113]. ends_session ev"
    by (simp add: ends_session_def key_of_def)
  show ?thesis using session_loop_terminates [OF a b, of session_init] .
qed

theorem session_capture_confirm_witness:
  "session_loop session_init
     (Frame blue_frame 32 # [Frame blue_frame (-1), Frame blue_frame 32] @ Frame blue_frame 13 # [])
     = Done (Some ''BBBBBBBBB'')"
proof -
  have k32: "key_of 32 = 32" and k13: "key_of 13 = 13" by (simp_all add: key_of_def)
  have p: "\<forall>ev \<in> set [Frame blue_frame (-1), Frame blue_frame 32]. passive_frame ev"
    by (simp add: passive_frame_def sample_blue_frame key_of_def)
  show ?thesis
    using session_capture_confirm [OF sample_blue_frame k32 p sample_blue_frame k13, of "[]"] .
qed

theorem scan_single_face_valid_witness:
  "fst (scan_single_face True [Frame blue_frame 32, Frame blue_frame 13]) = Done (Some ''BBBBBBBBB'') \<and>
   valid_reading (Some ''BBBBBBBBB'')"
proof -
  have d: "fst (scan_single_face True [Frame blue_frame 32, Frame blue_frame 13]) = Done (Some ''BBBBBBBBB'')"
    by (simp add: scan_single_face_def session_step_def sample_blue_frame session_init_def key_of_def)
  show ?thesis using scan_single_face_valid [OF d] d by simp
qed

end
