(* ===== verification/Orchestrator.thy ===== *)
theory Orchestrator
  imports Identify Capture "HOL-Library.AList"
begin

text \<open>
  ScanOrchestrator: the scan loop and the assembly of the cube string in
  \<open>flexible_cube_scanner\<close> of \<open>src/RCsolver.py\<close> (lines 152--212). The dictionary
  \<open>all_faces\<close> is an association list in insertion order, and the assignment
  \<open>all_faces[face_name] = face_colors\<close> (line 191) is \<open>AList.update\<close>, which appends a new
  key and overwrites the value of a present key in place, as a Python dict does; its keys
  are \<open>face_name option\<close> because
  \<open>identify_face_by_center\<close> may return \<open>None\<close>, which the code would store like any other
  key. \<open>face_count\<close> is the Python integer counter, and the console messages of each
  attempt are kept as a list of reports. The loop is driven by the outcomes of the successive
  calls of \<open>scan_single_face\<close> (line 172); the blocking \<open>input()\<close> (line 170) has no
  effect on the state.
\<close>

datatype report =
    ScanFailed
  | UnknownCenter char
  | AlreadyScanned "face_name option"
  | Identified "face_name option"

record scanner =
  all_faces :: "(face_name option \<times> char list) list"
  face_count :: int
  reports :: "report list"

definition scanner_init :: scanner where
  "scanner_init = \<lparr>all_faces = [], face_count = 0, reports = []\<rparr>"

text \<open>One iteration of \<open>while len(all_faces) < 6\<close> (lines 161--199), given the result of its
  \<open>scan_single_face()\<close> call.\<close>

definition scan_attempt :: "scanner \<Rightarrow> char list option \<Rightarrow> scanner" where
  "scan_attempt st0 r =
     (let st = st0\<lparr>face_count := face_count st0 + 1\<rparr> in
      case r of
        None \<Rightarrow> st\<lparr>face_count := face_count st - 1, reports := reports st @ [ScanFailed]\<rparr>
      | Some colors \<Rightarrow>
          if colors = [] then
            st\<lparr>face_count := face_count st - 1, reports := reports st @ [ScanFailed]\<rparr>
          else
            (let face_name = identify_face_by_center colors in
             if face_name = Some UNKNOWN then
               st\<lparr>face_count := face_count st - 1,
                  reports := reports st @ [UnknownCenter (colors ! 4)]\<rparr>
             else if face_name \<in> set (map fst (all_faces st)) then
               st\<lparr>face_count := face_count st - 1,
                  reports := reports st @ [AlreadyScanned face_name]\<rparr>
             else
               st\<lparr>all_faces := AList.update face_name colors (all_faces st),
                  reports := reports st @ [Identified face_name]\<rparr>))"

text \<open>
  The loop over the outcomes of the successive sessions: it exits as soon as six keys are
  bound; a session that raises ends the program with its exception, and a session that has
  not returned (or no further session) leaves the program waiting.
\<close>

fun scanner_loop :: "scanner \<Rightarrow> char list option run list \<Rightarrow> scanner run" where
  "scanner_loop st rs =
     (if length (all_faces st) < 6 then
        (case rs of
           [] \<Rightarrow> Waiting
         | Done r # rs' \<Rightarrow> scanner_loop (scan_attempt st r) rs'
         | Raised e # _ \<Rightarrow> Raised e
         | Waiting # _ \<Rightarrow> Waiting)
      else Done st)"

declare scanner_loop.simps [simp del]

text \<open>\<open>ordered_faces\<close> and the concatenation loop (lines 204--210); \<open>all_faces[face_name]\<close>
  raises \<open>KeyError\<close> for a missing slot.\<close>

definition ordered_faces :: "face_name list" where
  "ordered_faces = [TOP, RIGHT, FRONT, BOTTOM, LEFT, BACK]"

fun assemble_faces :: "(face_name option \<times> char list) list \<Rightarrow> face_name list \<Rightarrow> py_error + string" where
  "assemble_faces faces [] = Inr []"
| "assemble_faces faces (f # fs) =
     (case map_of faces (Some f) of
        None \<Rightarrow> Inl KeyError
      | Some colors \<Rightarrow>
          (case assemble_faces faces fs of Inl e \<Rightarrow> Inl e | Inr s \<Rightarrow> Inr (colors @ s)))"

definition cube_string_of :: "scanner \<Rightarrow> py_error + string" where
  "cube_string_of st = assemble_faces (all_faces st) ordered_faces"

text \<open>What the loop keeps true: no key twice, every key a real slot and the identification
  of its reading, every reading nine scan-palette labels, and the counter equal to the number
  of bound slots.\<close>

definition scanner_inv :: "scanner \<Rightarrow> bool" where
  "scanner_inv st \<longleftrightarrow>
     distinct (map fst (all_faces st)) \<and>
     (\<forall>(k, fc) \<in> set (all_faces st).
        k \<in> Some ` set face_slots \<and> k = identify_face_by_center fc \<and>
        length fc = 9 \<and> set fc \<subseteq> set scan_palette) \<and>
     face_count st = int (length (all_faces st))"

inductive scanner_reach :: "scanner \<Rightarrow> bool" where
  init: "scanner_reach scanner_init"
| attempt: "scanner_reach st \<Longrightarrow> valid_reading r \<Longrightarrow> scanner_reach (scan_attempt st r)"

text \<open>The slots an attempt's reading identifies.\<close>

definition identified :: "char list option run \<Rightarrow> face_name option" where
  "identified r = (case r of Done (Some fc) \<Rightarrow> identify_face_by_center fc | _ \<Rightarrow> None)"

text \<open>The reports that announce a new binding (line 194).\<close>

fun identified_report :: "report \<Rightarrow> bool" where
  "identified_report (Identified k) = True"
| "identified_report _ = False"

text \<open>Session outcomes the loop may receive: every returned reading is one
  \<open>scan_single_face\<close> can return.\<close>

definition valid_runs :: "char list option run list \<Rightarrow> bool" where
  "valid_runs rs \<longleftrightarrow> (\<forall>r \<in> set rs. case r of Done x \<Rightarrow> valid_reading x | _ \<Rightarrow> True)"

text \<open>A concrete run for the witnesses: a white face, a failed scan, a second reading with a
  white centre (a duplicate), then the five other faces.\<close>

definition demo_runs :: "char list option run list" where
  "demo_runs =
     [Done (Some ''WWWWWWWWW''), Done None, Done (Some ''GGGGWGGGG''), Done (Some ''BBBBBBBBB''),
      Done (Some ''RRRRRRRRR''), Done (Some ''YYYYYYYYY''), Done (Some ''GGGGGGGGG''),
      Done (Some ''OOOOOOOOO'')]"

definition demo_final :: scanner where
  "demo_final =
     \<lparr>all_faces =
        [(Some TOP, ''WWWWWWWWW''), (Some RIGHT, ''BBBBBBBBB''), (Some FRONT, ''RRRRRRRRR''),
         (Some BOTTOM, ''YYYYYYYYY''), (Some LEFT, ''GGGGGGGGG''), (Some BACK, ''OOOOOOOOO'')],
      face_count = 6,
      reports =
        [Identified (Some TOP), ScanFailed, AlreadyScanned (Some TOP), Identified (Some RIGHT),
         Identified (Some FRONT), Identified (Some BOTTOM), Identified (Some LEFT),
         Identified (Some BACK)]\<rparr>"

subsection \<open>Invariant of the scan loop\<close>

lemma scanner_init_inv: "scanner_inv scanner_init"
  by (simp add: scanner_inv_def scanner_init_def)

lemma scan_attempt_extends: "\<exists>ys. all_faces (scan_attempt st r) = all_faces st @ ys"
  by (auto simp: scan_attempt_def Let_def update_new_key split: option.splits)

lemma scan_attempt_inv:
  assumes "scanner_inv st" and "valid_reading r"
  shows "scanner_inv (scan_attempt st r)"
proof (cases "\<exists>fc. r = Some fc \<and> fc \<noteq> []")
  case False
  with assms show ?thesis
    by (cases r) (auto simp: scan_attempt_def scanner_inv_def)
next
  case True
  with assms(2) obtain fc where r: "r = Some fc" and fc: "length fc = 9" "set fc \<subseteq> set scan_palette"
    by (auto simp: valid_reading_def)
  then obtain f where f: "identify_face_by_center fc = Some f"
    by (cases "identify_face_by_center fc") (auto simp: identify_None_iff)
  show ?thesis
  proof (cases "f = UNKNOWN \<or> Some f \<in> set (map fst (all_faces st))")
    case True
    with assms(1) r f fc show ?thesis
      by (auto simp: scan_attempt_def scanner_inv_def Let_def)
  next
    case False
    then have "f \<in> set face_slots" using f by (auto intro: identify_slot)
    with False assms(1) r f fc show ?thesis
      by (auto simp: scan_attempt_def scanner_inv_def Let_def update_new_key)
  qed
qed

text \<open>
  C7: every state the scan loop reaches keeps the invariant: no slot bound twice, only the
  six real slots bound (never \<open>None\<close> or \<open>UNKNOWN\<close>), each to a reading whose centre
  identifies it, every bound reading nine
  scan-palette labels, and \<open>face_count\<close> equal to the number of bound slots, provided the
  sessions return what \<open>scan_single_face\<close> can return (C13).
\<close>

theorem scanner_reach_inv: "scanner_reach st \<Longrightarrow> scanner_inv st"
proof (induction rule: scanner_reach.induct)
  case init
  show ?case by (rule scanner_init_inv)
next
  case (attempt st r)
  from attempt.IH attempt.hyps(2) show ?case by (rule scan_attempt_inv)
qed

lemma card_slots: "card (Some ` set face_slots) = 6"
  by (simp add: face_slots_def)

lemma scanner_inv_keys_card:
  "scanner_inv st \<Longrightarrow> card (set (map fst (all_faces st))) = length (all_faces st) \<and>
     set (map fst (all_faces st)) \<subseteq> Some ` set face_slots"
  using distinct_card [of "map fst (all_faces st)"] by (auto simp: scanner_inv_def)

lemma scanner_inv_complete:
  assumes "scanner_inv st" and "6 \<le> length (all_faces st)"
  shows "set (map fst (all_faces st)) = Some ` set face_slots"
proof -
  from scanner_inv_keys_card [OF assms(1)] have
    c: "card (set (map fst (all_faces st))) = length (all_faces st)" and
    s: "set (map fst (all_faces st)) \<subseteq> Some ` set face_slots" by auto
  have "card (Some ` set face_slots) \<le> card (set (map fst (all_faces st)))"
    using c assms(2) card_slots by simp
  then show ?thesis using s by (intro card_seteq) auto
qed

lemma scanner_inv_full:
  assumes "scanner_inv st" and "Some ` set face_slots \<subseteq> set (map fst (all_faces st))"
  shows "6 \<le> length (all_faces st)"
proof -
  have "card (Some ` set face_slots) \<le> card (set (map fst (all_faces st)))"
    using assms(2) by (intro card_mono) auto
  with scanner_inv_keys_card [OF assms(1)] card_slots show ?thesis by simp
qed

lemma assemble_faces_ok:
  "(\<forall>f \<in> set fs. Some f \<in> set (map fst faces)) \<Longrightarrow>
   assemble_faces faces fs = Inr (concat (map (\<lambda>f. the (map_of faces (Some f))) fs))"
proof (induction fs)
  case Nil
  then show ?case by simp
next
  case (Cons f fs)
  then obtain v where "map_of faces (Some f) = Some v"
    by (auto simp: image_iff dest: weak_map_of_SomeI)
  with Cons show ?case by simp
qed

lemma scanner_inv_lookup:
  assumes "scanner_inv st" and "6 \<le> length (all_faces st)" and "f \<in> set face_slots"
  shows "\<exists>fc. map_of (all_faces st) (Some f) = Some fc \<and> identify_face_by_center fc = Some f \<and>
              length fc = 9 \<and> set fc \<subseteq> set scan_palette"
proof -
  have "Some f \<in> fst ` set (all_faces st)"
    using scanner_inv_complete [OF assms(1,2)] assms(3) by auto
  then obtain fc where fc: "map_of (all_faces st) (Some f) = Some fc"
    by (metis map_of_eq_None_iff not_None_eq)
  then have "(Some f, fc) \<in> set (all_faces st)" by (rule map_of_SomeD)
  with assms(1) fc show ?thesis by (auto simp: scanner_inv_def)
qed

lemma cube_string_of_complete:
  assumes "scanner_inv st" and "6 \<le> length (all_faces st)"
  shows "\<exists>s. cube_string_of st = Inr s \<and>
             s = concat (map (\<lambda>f. the (map_of (all_faces st) (Some f))) ordered_faces) \<and>
             length s = 54 \<and> set s \<subseteq> set scan_palette"
proof -
  have keys: "set (map fst (all_faces st)) = Some ` set face_slots"
    using assms by (rule scanner_inv_complete)
  have ord: "set ordered_faces = set face_slots" by (simp add: ordered_faces_def face_slots_def)
  have lookup: "\<And>f. f \<in> set face_slots \<Longrightarrow>
      length (the (map_of (all_faces st) (Some f))) = 9 \<and>
      set (the (map_of (all_faces st) (Some f))) \<subseteq> set scan_palette"
    using scanner_inv_lookup [OF assms] by fastforce
  have "cube_string_of st = Inr (concat (map (\<lambda>f. the (map_of (all_faces st) (Some f))) ordered_faces))"
    unfolding cube_string_of_def using keys ord by (intro assemble_faces_ok) auto
  moreover have "length (concat (map (\<lambda>f. the (map_of (all_faces st) (Some f))) ordered_faces)) = 54"
    using lookup ord by (subst length_concat_map_const [where k = 9]) (auto simp: ordered_faces_def)
  moreover have "set (concat (map (\<lambda>f. the (map_of (all_faces st) (Some f))) ordered_faces)) \<subseteq> set scan_palette"
    using lookup ord by auto
  ultimately show ?thesis by blast
qed

lemma valid_runs_Cons [simp]: "valid_runs (r # rs) \<longleftrightarrow> (\<forall>x. r = Done x \<longrightarrow> valid_reading x) \<and> valid_runs rs"
  by (auto simp: valid_runs_def split: run.splits)

lemma scanner_loop_Done:
  "scanner_inv st \<Longrightarrow> valid_runs rs \<Longrightarrow> scanner_loop st rs = Done st' \<Longrightarrow>
   scanner_inv st' \<and> 6 \<le> length (all_faces st') \<and> (\<exists>ys. all_faces st' = all_faces st @ ys)"
proof (induction rs arbitrary: st)
  case Nil
  then show ?case by (simp add: scanner_loop.simps split: if_splits)
next
  case (Cons r rs)
  show ?case
  proof (cases "length (all_faces st) < 6")
    case False
    with Cons.prems show ?thesis by (simp add: scanner_loop.simps)
  next
    case True
    with Cons.prems obtain x where r: "r = Done x" and x: "valid_reading x"
      and loop: "scanner_loop (scan_attempt st x) rs = Done st'"
      by (auto simp: scanner_loop.simps split: run.splits)
    have inv: "scanner_inv (scan_attempt st x)" using Cons.prems(1) x by (rule scan_attempt_inv)
    from Cons.IH [OF inv _ loop] Cons.prems(2) have
      "scanner_inv st' \<and> 6 \<le> length (all_faces st') \<and>
       (\<exists>ys. all_faces st' = all_faces (scan_attempt st x) @ ys)" by simp
    with scan_attempt_extends [of st x] show ?thesis by auto
  qed
qed

lemma scan_attempt_binds:
  assumes "identify_face_by_center fc = Some f" and "f \<in> set face_slots"
  shows "Some f \<in> set (map fst (all_faces (scan_attempt st (Some fc))))"
proof -
  have "fc \<noteq> []" using identify_Some_length [OF assms(1)] by auto
  moreover have "f \<noteq> UNKNOWN" using assms(2) by (auto simp: face_slots_def)
  ultimately show ?thesis using assms(1) by (auto simp: scan_attempt_def Let_def update_new_key)
qed

lemma scanner_loop_progress:
  "scanner_inv st \<Longrightarrow> (\<forall>r \<in> set rs. \<exists>x. r = Done x \<and> valid_reading x) \<Longrightarrow>
   (\<forall>f \<in> set face_slots. Some f \<in> set (map fst (all_faces st)) \<or> (\<exists>r \<in> set rs. identified r = Some f)) \<Longrightarrow>
   \<exists>st'. scanner_loop st rs = Done st'"
proof (induction rs arbitrary: st)
  case Nil
  then have "Some ` set face_slots \<subseteq> set (map fst (all_faces st))" by auto
  with Nil.prems(1) have "6 \<le> length (all_faces st)" by (rule scanner_inv_full)
  then show ?case by (simp add: scanner_loop.simps)
next
  case (Cons r rs)
  show ?case
  proof (cases "length (all_faces st) < 6")
    case False
    then show ?thesis by (simp add: scanner_loop.simps)
  next
    case True
    from Cons.prems(2) obtain x where r: "r = Done x" and x: "valid_reading x" by auto
    let ?st = "scan_attempt st x"
    have inv: "scanner_inv ?st" using Cons.prems(1) x by (rule scan_attempt_inv)
    have cover: "\<forall>f \<in> set face_slots. Some f \<in> set (map fst (all_faces ?st)) \<or>
                   (\<exists>r \<in> set rs. identified r = Some f)"
    proof
      fix f assume f: "f \<in> set face_slots"
      obtain ys where ys: "all_faces ?st = all_faces st @ ys" using scan_attempt_extends by blast
      from Cons.prems(3) f consider
          "Some f \<in> set (map fst (all_faces st))"
        | "identified r = Some f"
        | "\<exists>r \<in> set rs. identified r = Some f" by auto
      then show "Some f \<in> set (map fst (all_faces ?st)) \<or> (\<exists>r \<in> set rs. identified r = Some f)"
      proof cases
        case 1
        with ys show ?thesis by auto
      next
        case 2
        then obtain fc where "x = Some fc" and "identify_face_by_center fc = Some f"
          by (auto simp: identified_def r split: option.splits)
        with f show ?thesis using scan_attempt_binds by blast
      next
        case 3
        then show ?thesis by blast
      qed
    qed
    from Cons.IH [OF inv _ cover] Cons.prems(2) obtain st' where "scanner_loop ?st rs = Done st'" by auto
    with True r show ?thesis by (auto simp: scanner_loop.simps [of st])
  qed
qed

lemma scanner_loop_prefix:
  "\<forall>r \<in> set rs. \<exists>x. r = Done x \<Longrightarrow> scanner_loop st rs = Waiting \<Longrightarrow>
   \<exists>st'. length (all_faces st') < 6 \<and> (\<forall>rs'. scanner_loop st (rs @ rs') = scanner_loop st' rs')"
proof (induction rs arbitrary: st)
  case Nil
  then have "length (all_faces st) < 6" by (simp add: scanner_loop.simps split: if_splits)
  then show ?case by auto
next
  case (Cons r rs)
  from Cons.prems(1) obtain x where r: "r = Done x" by auto
  from Cons.prems(2) r have l: "length (all_faces st) < 6"
    by (simp add: scanner_loop.simps [of st] split: if_splits)
  with Cons.prems r have w: "scanner_loop (scan_attempt st x) rs = Waiting"
    by (simp add: scanner_loop.simps [of st])
  have d: "\<forall>r \<in> set rs. \<exists>x. r = Done x" using Cons.prems(1) by simp
  from Cons.IH [OF d w] obtain st' where "length (all_faces st') < 6"
    "\<forall>rs'. scanner_loop (scan_attempt st x) (rs @ rs') = scanner_loop st' rs'" by blast
  with l r show ?case by (auto simp: scanner_loop.simps [of st])
qed

lemma scan_attempt_no_unknown:
  assumes "valid_reading r" and "UnknownCenter c \<notin> set (reports st)"
  shows "UnknownCenter c \<notin> set (reports (scan_attempt st r))"
proof (cases "\<exists>fc. r = Some fc \<and> fc \<noteq> []")
  case False
  with assms(2) show ?thesis by (cases r) (auto simp: scan_attempt_def)
next
  case True
  with assms(1) obtain fc where r: "r = Some fc" "fc \<noteq> []" "length fc = 9" "set fc \<subseteq> set scan_palette"
    by (auto simp: valid_reading_def)
  then obtain f where "f \<in> set face_slots" "identify_face_by_center fc = Some f"
    using identify_palette_reading by blast
  moreover have "UNKNOWN \<notin> set face_slots" by (simp add: face_slots_def)
  ultimately show ?thesis using assms(2) r by (auto simp: scan_attempt_def Let_def)
qed

lemma scanner_loop_no_unknown:
  "valid_runs rs \<Longrightarrow> UnknownCenter c \<notin> set (reports st) \<Longrightarrow> scanner_loop st rs = Done st' \<Longrightarrow>
   UnknownCenter c \<notin> set (reports st')"
proof (induction rs arbitrary: st)
  case Nil
  then show ?case by (simp add: scanner_loop.simps split: if_splits)
next
  case (Cons r rs)
  show ?case
  proof (cases "length (all_faces st) < 6")
    case False
    with Cons.prems show ?thesis by (simp add: scanner_loop.simps)
  next
    case True
    with Cons.prems obtain x where "r = Done x" "valid_reading x"
      "scanner_loop (scan_attempt st x) rs = Done st'"
      by (auto simp: scanner_loop.simps split: run.splits)
    then have "UnknownCenter c \<notin> set (reports (scan_attempt st x))"
      using Cons.prems(2) by (intro scan_attempt_no_unknown)
    with Cons.IH Cons.prems(1) \<open>r = Done x\<close> \<open>scanner_loop (scan_attempt st x) rs = Done st'\<close>
    show ?thesis by simp
  qed
qed

lemma scanner_six_faces:
  assumes "length fs = 6" and "\<forall>i < 6. identify_face_by_center (fs ! i) = Some (ordered_faces ! i)"
  shows "\<exists>st. scanner_loop scanner_init (map (\<lambda>f. Done (Some f)) fs) = Done st \<and>
              cube_string_of st = Inr (concat fs)"
proof -
  obtain f0 f1 f2 f3 f4 f5 where fs: "fs = [f0, f1, f2, f3, f4, f5]"
    using assms(1) by (auto simp: numeral_eq_Suc length_Suc_conv)
  have i: "identify_face_by_center f0 = Some TOP" "identify_face_by_center f1 = Some RIGHT"
    "identify_face_by_center f2 = Some FRONT" "identify_face_by_center f3 = Some BOTTOM"
    "identify_face_by_center f4 = Some LEFT" "identify_face_by_center f5 = Some BACK"
    using assms(2) [rule_format, of 0] assms(2) [rule_format, of 1] assms(2) [rule_format, of 2]
      assms(2) [rule_format, of 3] assms(2) [rule_format, of 4] assms(2) [rule_format, of 5]
    by (simp_all add: fs ordered_faces_def)
  then have "f0 \<noteq> []" "f1 \<noteq> []" "f2 \<noteq> []" "f3 \<noteq> []" "f4 \<noteq> []" "f5 \<noteq> []"
    by (auto dest: identify_Some_length)
  with i show ?thesis
    by (simp add: fs scanner_loop.simps scan_attempt_def Let_def scanner_init_def update_new_key
                  cube_string_of_def ordered_faces_def)
qed

subsection \<open>Properties of the scan loop\<close>

text \<open>
  C2: when the scan loop exits, the assembled cube string exists (no \<open>KeyError\<close>), has 54
  scan-palette letters, and is the concatenation of the six bound readings in the order TOP,
  RIGHT, FRONT, BOTTOM, LEFT, BACK.
\<close>

theorem scanner_cube_string:
  assumes "valid_runs rs" and "scanner_loop scanner_init rs = Done st"
  shows "\<exists>s. cube_string_of st = Inr s \<and> length s = 54 \<and> set s \<subseteq> set scan_palette \<and>
             s = concat (map (\<lambda>f. the (map_of (all_faces st) (Some f))) ordered_faces)"
proof -
  from scanner_loop_Done [OF scanner_init_inv assms] have
    "scanner_inv st" and "6 \<le> length (all_faces st)" by auto
  then show ?thesis using cube_string_of_complete by blast
qed

theorem scanner_cube_string_witness:
  "scanner_loop scanner_init demo_runs = Done demo_final \<and>
   (\<exists>s. cube_string_of demo_final = Inr s \<and> length s = 54 \<and> set s \<subseteq> set scan_palette \<and>
        s = concat (map (\<lambda>f. the (map_of (all_faces demo_final) (Some f))) ordered_faces))"
proof -
  have v: "valid_runs demo_runs" by code_simp
  have l: "scanner_loop scanner_init demo_runs = Done demo_final" by code_simp
  show ?thesis using scanner_cube_string [OF v l] l by blast
qed

text \<open>
  C3: when the scan loop exits, each of the six slots is bound exactly once (the keys are
  distinct and are exactly the six slots) and \<open>face_count\<close> is 6, whatever failed,
  unidentified or duplicate attempts came before.
\<close>

theorem scanner_slots_once:
  assumes "valid_runs rs" and "scanner_loop scanner_init rs = Done st"
  shows "distinct (map fst (all_faces st)) \<and> set (map fst (all_faces st)) = Some ` set face_slots \<and>
         face_count st = 6"
proof -
  from scanner_loop_Done [OF scanner_init_inv assms] have
    inv: "scanner_inv st" and len: "6 \<le> length (all_faces st)" by auto
  have keys: "set (map fst (all_faces st)) = Some ` set face_slots"
    using inv len by (rule scanner_inv_complete)
  from inv have "card (set (map fst (all_faces st))) = length (all_faces st)"
    using scanner_inv_keys_card by blast
  with keys card_slots have "length (all_faces st) = 6" by simp
  with inv keys show ?thesis by (simp add: scanner_inv_def)
qed

theorem scanner_slots_once_witness:
  "scanner_loop scanner_init demo_runs = Done demo_final \<and>
   distinct (map fst (all_faces demo_final)) \<and>
   set (map fst (all_faces demo_final)) = Some ` set face_slots \<and> face_count demo_final = 6"
proof -
  have v: "valid_runs demo_runs" by code_simp
  have l: "scanner_loop scanner_init demo_runs = Done demo_final" by code_simp
  show ?thesis using scanner_slots_once [OF v l] l by blast
qed

theorem scanner_reach_inv_witness:
  "distinct (map fst (all_faces (scan_attempt scanner_init (Some ''WWWWWWWWW'')))) \<and>
   face_count (scan_attempt scanner_init (Some ''WWWWWWWWW'')) =
     int (length (all_faces (scan_attempt scanner_init (Some ''WWWWWWWWW''))))"
proof -
  have "valid_reading (Some ''WWWWWWWWW'')" by (simp add: valid_reading_def scan_palette_def)
  then have r: "scanner_reach (scan_attempt scanner_init (Some ''WWWWWWWWW''))"
    by (rule scanner_reach.attempt [OF scanner_reach.init])
  show ?thesis using scanner_reach_inv [OF r] by (simp add: scanner_inv_def)
qed

text \<open>
  C11: the scan loop terminates as soon as the sessions have delivered, among valid readings, a
  reading identified as each of the six slots; failures and duplicates in between do not
  prevent it.
\<close>

theorem scanner_loop_completes:
  assumes "\<forall>r \<in> set rs. \<exists>x. r = Done x \<and> valid_reading x"
    and "\<forall>f \<in> set face_slots. \<exists>r \<in> set rs. identified r = Some f"
  shows "\<exists>st. scanner_loop scanner_init rs = Done st"
  using scanner_loop_progress [OF scanner_init_inv assms(1)] assms(2) by blast

theorem scanner_loop_completes_witness:
  "\<exists>st. scanner_loop scanner_init demo_runs = Done st"
proof -
  have a: "\<forall>r \<in> set demo_runs. \<exists>x. r = Done x \<and> valid_reading x"
    by (simp add: demo_runs_def valid_reading_def scan_palette_def)
  have b: "\<forall>f \<in> set face_slots. \<exists>r \<in> set demo_runs. identified r = Some f" by code_simp
  show ?thesis using scanner_loop_completes [OF a b] .
qed

text \<open>
  C12: a slot, once bound, keeps its reading: the assignment \<open>all_faces[face_name] =
  face_colors\<close> would overwrite a bound slot, but the \<open>already scanned\<close> check before it
  rejects every rescan, so no later attempt removes or overwrites a binding.
\<close>

theorem scan_attempt_keeps_binding:
  "map_of (all_faces st) k = Some v \<Longrightarrow> map_of (all_faces (scan_attempt st r)) k = Some v"
proof -
  assume b: "map_of (all_faces st) k = Some v"
  obtain ys where "all_faces (scan_attempt st r) = all_faces st @ ys" using scan_attempt_extends by blast
  with b show ?thesis by (simp add: map_of_append)
qed

theorem scan_attempt_keeps_binding_witness:
  "map_of (all_faces demo_final) (Some TOP) = Some ''WWWWWWWWW'' \<and>
   map_of (all_faces (scan_attempt demo_final (Some ''OOOOWOOOO''))) (Some TOP) = Some ''WWWWWWWWW''"
proof -
  have b: "map_of (all_faces demo_final) (Some TOP) = Some ''WWWWWWWWW''" by (simp add: demo_final_def)
  show ?thesis using scan_attempt_keeps_binding [OF b] b by blast
qed

text \<open>
  C32: the console reports account for the state: the \<open>identified as\<close> reports are exactly
  the bindings of \<open>all_faces\<close>, in the order they were made, and \<open>face_count\<close> (incremented
  on every attempt and decremented on every \<open>continue\<close>) is their number.
\<close>

theorem scanner_reports_inv:
  "scanner_reach st \<Longrightarrow>
   map (\<lambda>(k, fc). Identified k) (all_faces st) = filter identified_report (reports st) \<and>
   face_count st = int (length (filter identified_report (reports st)))"
proof (induction rule: scanner_reach.induct)
  case init
  then show ?case by (simp add: scanner_init_def)
next
  case (attempt st r)
  then show ?case by (auto simp: scan_attempt_def Let_def update_new_key split: option.splits)
qed

theorem scanner_reports_inv_witness:
  "map (\<lambda>(k, fc). Identified k) (all_faces (scan_attempt scanner_init (Some ''WWWWWWWWW''))) =
     filter identified_report (reports (scan_attempt scanner_init (Some ''WWWWWWWWW''))) \<and>
   face_count (scan_attempt scanner_init (Some ''WWWWWWWWW'')) =
     int (length (filter identified_report (reports (scan_attempt scanner_init (Some ''WWWWWWWWW'')))))"
proof -
  have "valid_reading (Some ''WWWWWWWWW'')" by (simp add: valid_reading_def scan_palette_def)
  then have r: "scanner_reach (scan_attempt scanner_init (Some ''WWWWWWWWW''))"
    by (rule scanner_reach.attempt [OF scanner_reach.init])
  show ?thesis using scanner_reports_inv [OF r] .
qed

end
