(* ===== verification/Formatter.thy ===== *)
theory Formatter
  imports Prelude
begin

text \<open>
  SolutionFormatter: \<open>convert_solution_to_readable\<close> and \<open>print_readable_solution\<close> of
  \<open>src/RCsolver.py\<close> (lines 227--281). Strings are byte strings: the solver's output is
  ASCII, and the degree sign of the direction phrases is written as its two UTF-8 bytes.
  \<open>str.split()\<close> without argument splits at runs of whitespace and drops empty pieces;
  for bytes, Python's whitespace is space, tab, line feed, vertical tab, form feed, carriage
  return and the separators \<open>\x1c\<close>--\<open>\x1f\<close>. What \<open>print\<close> writes is the list of
  printed lines.
\<close>

definition py_isspace :: "char \<Rightarrow> bool" where
  "py_isspace c \<longleftrightarrow>
     (let n = (of_char c :: nat) in n = 32 \<or> (9 \<le> n \<and> n \<le> 13) \<or> (28 \<le> n \<and> n \<le> 31))"

fun py_split_acc :: "string \<Rightarrow> string \<Rightarrow> string list" where
  "py_split_acc cur [] = (if cur = [] then [] else [rev cur])"
| "py_split_acc cur (c # cs) =
     (if py_isspace c then (if cur = [] then py_split_acc [] cs else rev cur # py_split_acc [] cs)
      else py_split_acc (c # cur) cs)"

definition py_split :: "string \<Rightarrow> string list" where
  "py_split s = py_split_acc [] s"

definition py_endswith :: "string \<Rightarrow> char \<Rightarrow> bool" where
  "py_endswith s c \<longleftrightarrow> s \<noteq> [] \<and> last s = c"

definition degree_sign :: string where
  "degree_sign = [CHR 0xC2, CHR 0xB0]"

definition face_names :: "(char \<times> string) list" where
  "face_names =
     [(CHR ''L'', ''LEFT/GREEN''), (CHR ''D'', ''DOWN/YELLOW''), (CHR ''B'', ''BACK/ORANGE''),
      (CHR ''R'', ''RIGHT/BLUE''), (CHR ''U'', ''UP/WHITE''), (CHR ''F'', ''FRONT/RED'')]"

definition directions :: "(char \<times> string) list" where
  "directions =
     [(CHR ''1'', ''clockwise 90'' @ degree_sign), (CHR ''2'', ''180'' @ degree_sign),
      (CHR ''3'', ''counter-clockwise 90'' @ degree_sign)]"

text \<open>The body of \<open>for move in moves\<close> (lines 257--264): the lines it appends.\<close>

definition readable_move :: "string \<Rightarrow> string list" where
  "readable_move move =
     (if length move \<ge> 2 then
        (case (map_of face_names (move ! 0), map_of directions (move ! 1)) of
           (Some face_name, Some direction_name) \<Rightarrow> [face_name @ '' '' @ direction_name]
         | _ \<Rightarrow> [])
      else [])"

definition convert_solution_to_readable :: "string \<Rightarrow> string list" where
  "convert_solution_to_readable solution_string =
     (let moves = py_split (removeAll CHR '')'' (removeAll CHR ''('' solution_string));
          moves = filter (\<lambda>move. \<not> py_endswith move CHR ''f'') moves
      in concat (map readable_move moves))"

text \<open>\<open>str(n)\<close> and the format \<open>{i:2d}\<close> (right-aligned in two columns).\<close>

fun nat_to_dec :: "nat \<Rightarrow> string" where
  "nat_to_dec n =
     (if n < 10 then [char_of (48 + n)] else nat_to_dec (n div 10) @ [char_of (48 + n mod 10)])"

declare nat_to_dec.simps [simp del]

definition format_2d :: "nat \<Rightarrow> string" where
  "format_2d i = replicate (2 - length (nat_to_dec i)) CHR '' '' @ nat_to_dec i"

definition separator :: string where
  "separator = concat (replicate 50 ''-:'')"

definition print_readable_solution :: "string \<Rightarrow> string list" where
  "print_readable_solution solution =
     (let readable = convert_solution_to_readable solution in
      [CHR 0x0A # separator, ''RUBIK'' @ [CHR 0x27] @ ''S CUBE SOLUTION'', separator] @
      map (\<lambda>(i, move). format_2d i @ ''. '' @ move) (zip [1..<length readable + 1] readable) @
      [separator, ''Total moves: '' @ nat_to_dec (length readable), separator])"

text \<open>
  The move-list format of the solver's output (not in the repository): tokens \<open>F1\<close>,
  \<open>U2\<close>, \dots separated by spaces, followed by the move count as \<open>(nf)\<close>.
\<close>

definition solver_format :: "(char \<times> char) list \<Rightarrow> nat \<Rightarrow> string" where
  "solver_format ms n = concat (map (\<lambda>(f, d). [f, d, CHR '' '']) ms) @ ''('' @ nat_to_dec n @ ''f)''"

definition move_text :: "char \<times> char \<Rightarrow> string" where
  "move_text m = (case m of (f, d) \<Rightarrow> the (map_of face_names f) @ '' '' @ the (map_of directions d))"

definition valid_move :: "char \<times> char \<Rightarrow> bool" where
  "valid_move m = (case m of (f, d) \<Rightarrow> f \<in> set ''LDBRUF'' \<and> d \<in> set ''123'')"

subsection \<open>Properties of the formatter\<close>

lemma nat_to_dec_digits: "set (nat_to_dec n) \<subseteq> set ''0123456789''"
proof (induction n rule: nat_to_dec.induct)
  case (1 n)
  have all: "\<forall>m \<in> {0..<10 :: nat}. char_of (48 + m) \<in> set ''0123456789''" by code_simp
  have d: "char_of (48 + m) \<in> set ''0123456789''" if "m < 10" for m :: nat
    using all that by simp
  show ?case
  proof (cases "n < 10")
    case True
    then show ?thesis using d by (simp add: nat_to_dec.simps [of n])
  next
    case False
    with "1.IH" show ?thesis using d [of "n mod 10"] by (simp add: nat_to_dec.simps [of n])
  qed
qed

lemma nat_to_dec_nonempty: "nat_to_dec n \<noteq> []"
  by (simp add: nat_to_dec.simps [of n])

lemma py_split_acc_word:
  "\<forall>c \<in> set w. \<not> py_isspace c \<Longrightarrow> py_split_acc cur (w @ rest) = py_split_acc (rev w @ cur) rest"
  by (induction w arbitrary: cur) auto

lemma py_split_acc_token:
  "\<forall>c \<in> set w. \<not> py_isspace c \<Longrightarrow> w \<noteq> [] \<Longrightarrow> py_isspace c \<Longrightarrow>
   py_split_acc [] (w @ c # rest) = w # py_split_acc [] rest"
  by (simp add: py_split_acc_word)

lemma py_split_acc_last:
  "\<forall>c \<in> set w. \<not> py_isspace c \<Longrightarrow> w \<noteq> [] \<Longrightarrow> py_split_acc [] w = [w]"
  using py_split_acc_word [of w "[]" "[]"] by simp

lemma isspace_simps: "py_isspace CHR '' ''" "\<not> py_isspace CHR ''f''"
  by (simp_all add: py_isspace_def)

lemma valid_move_chars:
  "valid_move (f, d) \<Longrightarrow> \<not> py_isspace f \<and> \<not> py_isspace d \<and> f \<noteq> CHR ''('' \<and> f \<noteq> CHR '')'' \<and>
     d \<noteq> CHR ''('' \<and> d \<noteq> CHR '')'' \<and> d \<noteq> CHR ''f''"
  by (auto simp: valid_move_def py_isspace_def)

lemma digit_chars:
  "c \<in> set ''0123456789'' \<Longrightarrow> \<not> py_isspace c \<and> c \<noteq> CHR ''('' \<and> c \<noteq> CHR '')''"
  by (auto simp: py_isspace_def)

lemma removeAll_parens_moves:
  "\<forall>m \<in> set ms. valid_move m \<Longrightarrow>
   removeAll CHR '')'' (removeAll CHR ''('' (concat (map (\<lambda>(f, d). [f, d, CHR '' '']) ms))) =
     concat (map (\<lambda>(f, d). [f, d, CHR '' '']) ms)"
proof (induction ms)
  case Nil
  then show ?case by simp
next
  case (Cons m ms)
  obtain f d where m: "m = (f, d)" by (cases m)
  with Cons.prems have "valid_move (f, d)" by simp
  then have "f \<noteq> CHR ''('' \<and> f \<noteq> CHR '')'' \<and> d \<noteq> CHR ''('' \<and> d \<noteq> CHR '')''"
    by (simp add: valid_move_chars)
  with Cons m show ?case by auto
qed

lemma removeAll_parens_dec:
  "removeAll CHR '')'' (removeAll CHR ''('' (nat_to_dec n @ ''f'')) = nat_to_dec n @ ''f''"
proof -
  have "CHR ''('' \<notin> set ''0123456789''" and "CHR '')'' \<notin> set ''0123456789''" by simp_all
  then have "CHR ''('' \<notin> set (nat_to_dec n)" and "CHR '')'' \<notin> set (nat_to_dec n)"
    using nat_to_dec_digits [of n] by blast+
  then show ?thesis by (simp add: removeAll_id)
qed

lemma solver_format_unparen:
  "\<forall>m \<in> set ms. valid_move m \<Longrightarrow>
   removeAll CHR '')'' (removeAll CHR ''('' (solver_format ms n)) =
     concat (map (\<lambda>(f, d). [f, d, CHR '' '']) ms) @ nat_to_dec n @ ''f''"
  using removeAll_parens_moves [of ms] removeAll_parens_dec [of n]
  by (simp add: solver_format_def)

lemma py_split_moves:
  "\<forall>m \<in> set ms. valid_move m \<Longrightarrow> \<forall>c \<in> set w. \<not> py_isspace c \<Longrightarrow> w \<noteq> [] \<Longrightarrow>
   py_split_acc [] (concat (map (\<lambda>(f, d). [f, d, CHR '' '']) ms) @ w) = map (\<lambda>(f, d). [f, d]) ms @ [w]"
proof (induction ms)
  case Nil
  then show ?case by (simp add: py_split_acc_last)
next
  case (Cons m ms)
  obtain f d where m: "m = (f, d)" by (cases m)
  with Cons.prems have "\<not> py_isspace f" "\<not> py_isspace d" by (auto dest: valid_move_chars)
  then have "py_split_acc [] ([f, d] @ CHR '' '' # (concat (map (\<lambda>(f, d). [f, d, CHR '' '']) ms) @ w)) =
             [f, d] # py_split_acc [] (concat (map (\<lambda>(f, d). [f, d, CHR '' '']) ms) @ w)"
    by (intro py_split_acc_token) (auto simp: isspace_simps)
  with Cons m show ?case by simp
qed

lemma readable_move_valid: "valid_move (f, d) \<Longrightarrow> readable_move [f, d] = [move_text (f, d)]"
  by (auto simp: valid_move_def readable_move_def move_text_def face_names_def directions_def)

lemma valid_move_not_f: "valid_move m \<Longrightarrow> \<not> py_endswith ((\<lambda>(f, d). [f, d]) m) CHR ''f''"
  by (cases m) (auto simp: valid_move_def py_endswith_def)

lemma filter_moves:
  "\<forall>m \<in> set ms. valid_move m \<Longrightarrow>
   filter (\<lambda>move. \<not> py_endswith move CHR ''f'') (map (\<lambda>(f, d). [f, d]) ms @ [nat_to_dec n @ ''f'']) =
     map (\<lambda>(f, d). [f, d]) ms"
proof (induction ms)
  case Nil
  then show ?case by (simp add: py_endswith_def)
next
  case (Cons m ms)
  then show ?case using valid_move_not_f [of m] by simp
qed

lemma readable_moves:
  "\<forall>m \<in> set ms. valid_move m \<Longrightarrow> concat (map readable_move (map (\<lambda>(f, d). [f, d]) ms)) = map move_text ms"
proof (induction ms)
  case Nil
  then show ?case by simp
next
  case (Cons m ms)
  obtain f d where m: "m = (f, d)" by (cases m)
  with Cons.prems have "readable_move [f, d] = [move_text (f, d)]" by (simp add: readable_move_valid)
  with Cons m show ?case by simp
qed

text \<open>
  C28: round trip with the solver's move-list format: for any list of well-formed moves and
  any move count, formatting them as the solver does and converting back yields exactly one
  readable line per move, in order.
\<close>

theorem convert_solver_format:
  "\<forall>m \<in> set ms. valid_move m \<Longrightarrow> convert_solution_to_readable (solver_format ms n) = map move_text ms"
proof -
  assume v: "\<forall>m \<in> set ms. valid_move m"
  have w: "\<forall>c \<in> set (nat_to_dec n @ ''f''). \<not> py_isspace c"
    using nat_to_dec_digits [of n] digit_chars by (auto simp: isspace_simps)
  have split: "py_split (removeAll CHR '')'' (removeAll CHR ''('' (solver_format ms n))) =
      map (\<lambda>(f, d). [f, d]) ms @ [nat_to_dec n @ ''f'']"
    unfolding py_split_def solver_format_unparen [OF v]
    using v w by (intro py_split_moves) auto
  show ?thesis
    using split filter_moves [OF v, of n] readable_moves [OF v]
    by (simp add: convert_solution_to_readable_def)
qed

lemma face_names_keys: "map_of face_names c = Some fn \<Longrightarrow> c \<in> set ''LDBRUF''"
  by (drule map_of_SomeD) (auto simp: face_names_def)

lemma directions_keys: "map_of directions c = Some dn \<Longrightarrow> c \<in> set ''123''"
  by (drule map_of_SomeD) (auto simp: directions_def)

lemma readable_move_cases:
  "line \<in> set (readable_move move) \<Longrightarrow> \<exists>m. valid_move m \<and> line = move_text m"
proof -
  assume l: "line \<in> set (readable_move move)"
  have len: "length move \<ge> 2"
  proof (rule ccontr)
    assume "\<not> length move \<ge> 2"
    with l show False by (simp add: readable_move_def)
  qed
  obtain fn where f: "map_of face_names (move ! 0) = Some fn"
    using l len by (cases "map_of face_names (move ! 0)") (auto simp: readable_move_def)
  obtain dn where d: "map_of directions (move ! 1) = Some dn"
    using l len f by (cases "map_of directions (move ! 1)") (auto simp: readable_move_def)
  have line: "line = fn @ '' '' @ dn" using l len f d by (simp add: readable_move_def)
  have "valid_move (move ! 0, move ! 1)"
    using face_names_keys [OF f] directions_keys [OF d] by (simp add: valid_move_def)
  moreover have "line = move_text (move ! 0, move ! 1)" using line f d by (simp add: move_text_def)
  ultimately show ?thesis by blast
qed

text \<open>
  C29: whatever string the solver returns (an error message included), every line the
  converter produces is the text of a well-formed move; malformed tokens are dropped, never
  rendered.
\<close>

theorem convert_output_wellformed:
  "\<forall>line \<in> set (convert_solution_to_readable s). \<exists>m. valid_move m \<and> line = move_text m"
proof
  fix line assume "line \<in> set (convert_solution_to_readable s)"
  then obtain move where "line \<in> set (readable_move move)"
    by (auto simp: convert_solution_to_readable_def Let_def)
  then show "\<exists>m. valid_move m \<and> line = move_text m" by (rule readable_move_cases)
qed

theorem convert_output_wellformed_witness:
  "\<exists>m. valid_move m \<and>
     convert_solution_to_readable ''Error: Some edges are undefined. D1 X2'' ! 0 = move_text m"
proof -
  have "convert_solution_to_readable ''Error: Some edges are undefined. D1 X2'' \<noteq> []" by code_simp
  then have "convert_solution_to_readable ''Error: Some edges are undefined. D1 X2'' ! 0
      \<in> set (convert_solution_to_readable ''Error: Some edges are undefined. D1 X2'')" by simp
  then show ?thesis using convert_output_wellformed by blast
qed

text \<open>
  C30: the printed block has the three header lines, one numbered line per readable move with
  numbers 1, 2, \dots\ in two columns, and the total-moves line giving their count.
\<close>

theorem print_readable_layout:
  "length (print_readable_solution s) = length (convert_solution_to_readable s) + 6 \<and>
   (\<forall>i < length (convert_solution_to_readable s).
      print_readable_solution s ! (i + 3) = format_2d (i + 1) @ ''. '' @ convert_solution_to_readable s ! i) \<and>
   print_readable_solution s ! (length (convert_solution_to_readable s) + 4) =
     ''Total moves: '' @ nat_to_dec (length (convert_solution_to_readable s))"
proof -
  let ?r = "convert_solution_to_readable s"
  let ?body = "map (\<lambda>(i, move). format_2d i @ ''. '' @ move) (zip [1..<length ?r + 1] ?r)"
  have lb: "length ?body = length ?r" by (simp only: length_map length_zip length_upt)
  have p: "print_readable_solution s =
      [CHR 0x0A # separator, ''RUBIK'' @ [CHR 0x27] @ ''S CUBE SOLUTION'', separator] @ ?body @
      [separator, ''Total moves: '' @ nat_to_dec (length ?r), separator]"
    by (simp add: print_readable_solution_def Let_def)
  have "\<forall>i < length ?r. ?body ! i = format_2d (i + 1) @ ''. '' @ ?r ! i"
    by (simp del: upt_Suc)
  then show ?thesis using p lb by (auto simp: nth_append)
qed

theorem convert_solver_format_witness:
  "convert_solution_to_readable (solver_format [(CHR ''D'', CHR ''3''), (CHR ''L'', CHR ''2'')] 12) =
     map move_text [(CHR ''D'', CHR ''3''), (CHR ''L'', CHR ''2'')]"
proof -
  have v: "\<forall>m \<in> set [(CHR ''D'', CHR ''3''), (CHR ''L'', CHR ''2'')]. valid_move m"
    by (simp add: valid_move_def)
  show ?thesis using convert_solver_format [OF v, of 12] .
qed

theorem print_readable_layout_witness:
  "length (print_readable_solution ''(R1 U2 F3 20f)'') = 9 \<and>
   print_readable_solution ''(R1 U2 F3 20f)'' ! 3 =
     format_2d 1 @ ''. '' @ convert_solution_to_readable ''(R1 U2 F3 20f)'' ! 0 \<and>
   print_readable_solution ''(R1 U2 F3 20f)'' ! 7 = ''Total moves: '' @ nat_to_dec 3"
proof -
  have l: "length (convert_solution_to_readable ''(R1 U2 F3 20f)'') = 3" by code_simp
  note t = print_readable_layout [of "''(R1 U2 F3 20f)''", unfolded l]
  have "print_readable_solution ''(R1 U2 F3 20f)'' ! (0 + 3) =
      format_2d (0 + 1) @ ''. '' @ convert_solution_to_readable ''(R1 U2 F3 20f)'' ! 0"
    using t zero_less_numeral [where 'a = nat and n = "num.Bit1 num.One"] by blast
  then show ?thesis using t by simp
qed

end
