(* ===== verification/Spec2Isabelle.thy ===== *)
theory Spec2Isabelle
  imports Classifier Identify Palette Sampler Capture Orchestrator Formatter
begin

text \<open>
  \<^bold>\<open>A verification model of the Rubik's cube scanner \<open>src/RCsolver.py\<close>.\<close>

  The program scans the six faces of a cube with a camera, builds the 54-letter facelet
  string, translates it into the notation of the external two-phase solver
  (\<open>twophase.solver.solve\<close>) and prints the solver's moves in words. Its parts, in the order
  data flows through them, and the theory that models each:

  \<^item> ColorClassifier, \<open>detect_color\<close> (lines 23--63), theory \<open>Classifier\<close>: OpenCV's 8-bit
    BGR to HSV conversion (\<open>hsv_raw\<close>, with the fixed-point tables \<open>sdiv_table\<close> and
    \<open>hdiv_table180\<close> of OpenCV's \<open>RGB2HSV_b\<close>; modelled from OpenCV, which is not part of the
    repository), the HSV cascade \<open>hsv_cascade\<close> and the raw-channel fallback
    \<open>rgb_fallback\<close>. Channels are \<open>8 word\<close>, so \<open>g + 30\<close> wraps as NumPy 2 does on
    \<open>uint8\<close> scalars; \<open>detect_color_int\<close> is the same code read on unbounded integers.
  \<^item> FaceSampler, the grid part of \<open>scan_single_face\<close> (lines 97--122), theory \<open>Sampler\<close>:
    the frame as a record of its height, width and pixel function, \<open>cell_center\<close> for the
    grid geometry, and \<open>sample_face\<close>, which reads the nine cell centres with NumPy's
    indexing (negative indices count from the end, others raise \<open>IndexError\<close>, \<open>py_idx\<close>).
  \<^item> CaptureSession, \<open>scan_single_face\<close> (lines 82--150), theory \<open>Capture\<close>: one pass of its
    \<open>while True\<close> is \<open>session_step\<close> on the locals \<open>captured\<close> and \<open>face_colors\<close>, the
    loop over the events read from the camera is \<open>session_loop\<close>, and
    \<open>scan_single_face\<close> adds \<open>cap.isOpened()\<close> and records whether \<open>cap.release()\<close> ran.
    The spec's protocol is the inductive relation \<open>capture_spec\<close>.
  \<^item> FaceIdentifier, \<open>identify_face_by_center\<close> (lines 65--80), theory \<open>Identify\<close>.
  \<^item> ScanOrchestrator, the scan loop and assembly of \<open>flexible_cube_scanner\<close> (lines
    152--212), theory \<open>Orchestrator\<close>: \<open>scan_attempt\<close> is one iteration of
    \<open>while len(all_faces) < 6\<close> on the record \<open>scanner\<close> (the dictionary \<open>all_faces\<close> as an
    association list in insertion order, \<open>face_count\<close>, and the reports printed),
    \<open>scanner_loop\<close> the loop, \<open>cube_string_of\<close> the concatenation in \<open>ordered_faces\<close>.
  \<^item> PaletteTranslator, \<open>colorconvert\<close> (lines 5--21), theory \<open>Palette\<close>: the loop over
    \<open>range(54)\<close> as a recursive function with a measure.
  \<^item> SolutionFormatter, \<open>convert_solution_to_readable\<close> and \<open>print_readable_solution\<close>
    (lines 227--281), theory \<open>Formatter\<close>, with Python's \<open>str.split()\<close> and
    \<open>str.endswith\<close>, and the printed block as a list of lines.
  \<^item> The top level (lines 213--226), this theory: \<open>convert_and_solve\<close> is the
    \<open>try\<close> block, \<open>flexible_cube_scanner\<close> the whole function over the outcomes of its
    capture sessions, and \<open>run_program\<close> the program driven by what the camera delivers in
    each session.

  Shared vocabulary is in \<open>Prelude\<close>: the exceptions \<open>IndexError\<close> and \<open>KeyError\<close> as values
  of \<open>py_error\<close>, every fallible operation returning \<open>py_error + 'a\<close>, and the outcome
  \<open>'a run\<close> of a loop driven by an input stream. The camera and the keyboard are unbounded
  streams; the model runs each loop over a finite prefix of its input, and the outcome
  \<open>Waiting\<close> means the prefix ran out with the program still blocked in the loop. No fuel is
  needed: every loop of the source either has a fixed bound (\<open>range(54)\<close>, the nine cells) or
  consumes one input item per iteration, so each model is structurally recursive on its
  input list, and the liveness theorems say which inputs make the loop return.

  The solver is a parameter of type \<open>solver\<close>: a function from the facelet string, the
  depth and the number of solutions to the raw solution, \<open>None\<close> when it raises. The only
  property the code relies on is the call itself, which the end-to-end theorem states.

  What the lemmas show, by theory:
  \<^item> \<open>Classifier\<close>: every pixel gets one of the six labels; the stored HSV bytes are
    OpenCV's values; the classifier equals its unbounded-integer reading when no channel
    reaches 226, and labels red every pixel that falls through the HSV tier with green and
    blue at 226 or more and red above the wrapped sums \<open>g + 30\<close>, \<open>b + 30\<close>; part of
    the red hue range is shadowed by orange; pure red, green and blue of every intensity get
    their labels; a grey pixel is white above 150 and yellow otherwise.
  \<^item> \<open>Sampler\<close>: on a frame at least 280 high and 201 wide the reading is the nine labels of
    the cell centres; narrower frames raise \<open>IndexError\<close>; frames 140 to 279 high read
    wrapped rows silently.
  \<^item> \<open>Capture\<close>: the loop invariant; each step refines the spec's protocol; the loop returns
    on a read failure or quit key; capture then confirm returns the captured reading; the
    returned reading is valid; and, conversely, every transition of the protocol but a missing frame after a capture is
    taken by some camera event.
  \<^item> \<open>Palette\<close>: the loop's closed form; the palette translation is a letter-wise
    bijection on well-formed strings and drops, without error, letters outside the palette.
    \<open>Identify\<close> holds the lemmas on the colour scheme the other theories use.
  \<^item> \<open>Orchestrator\<close>: the scan-loop invariant; on exit each slot is bound exactly once and
    the cube string is the six readings in order; bindings are never overwritten (the dict
    assignment would overwrite; the duplicate check prevents it); the loop
    exits once the readings cover the six slots; the console reports account for the
    bindings and for \<open>face_count\<close>.
  \<^item> \<open>Formatter\<close>: conversion inverts the solver's move format; every output line is a move
    in words; the printed block's layout.
  \<^item> This theory: the end-to-end contract of the pipeline, its liveness, the propagation of
    a sampler exception from any session, the unbounded retry when the camera never opens,
    the dead \<open>UNKNOWN\<close> branch, and that every 54-letter string with the right centres
    is returned for some camera input (no check that the facelets form a cube).

  Not modelled: drawing and display (\<open>cv2.rectangle\<close>, \<open>cv2.putText\<close>, \<open>cv2.imshow\<close>,
  \<open>cv2.destroyAllWindows\<close>) and console output other than the reports and the printed
  solution, which have no effect on the state; the blocking \<open>input()\<close> before each scan;
  the search of the solver; and the module-level call that starts the program (line 283).
\<close>

section \<open>The top level: \<open>flexible_cube_scanner\<close>\<close>

text \<open>
  The solver interface (line 219): \<open>sv.solve(converted_string, 20, 3)\<close> returns the raw
  solution or raises; \<open>None\<close> stands for the exception. The \<open>try\<close> block (lines 214--225)
  reports the solution printed by \<open>print_readable_solution\<close>, or \<open>SolveFailed\<close> for the
  message \<open>cube state might be invalid\<close> of its \<open>except\<close> branch.
\<close>

type_synonym solver = "string \<Rightarrow> nat \<Rightarrow> nat \<Rightarrow> string option"

datatype solve_report = Solved string "string list" | SolveFailed

definition convert_and_solve :: "solver \<Rightarrow> string \<Rightarrow> solve_report" where
  "convert_and_solve solve cube_string =
     (case colorconvert cube_string of
        Inl _ \<Rightarrow> SolveFailed
      | Inr converted_string \<Rightarrow>
          (case solve converted_string 20 3 of
             None \<Rightarrow> SolveFailed
           | Some solution \<Rightarrow> Solved solution (print_readable_solution solution)))"

definition flexible_cube_scanner :: "solver \<Rightarrow> char list option run list \<Rightarrow> (string \<times> solve_report) run" where
  "flexible_cube_scanner solve rs =
     (case scanner_loop scanner_init rs of
        Done st \<Rightarrow>
          (case cube_string_of st of
             Inl e \<Rightarrow> Raised e
           | Inr cube_string \<Rightarrow> Done (cube_string, convert_and_solve solve cube_string))
      | Raised e \<Rightarrow> Raised e
      | Waiting \<Rightarrow> Waiting)"

definition session_outcomes :: "(bool \<times> event list) list \<Rightarrow> char list option run list" where
  "session_outcomes sessions = map (\<lambda>(opened, evs). fst (scan_single_face opened evs)) sessions"

definition run_program :: "solver \<Rightarrow> (bool \<times> event list) list \<Rightarrow> (string \<times> solve_report) run" where
  "run_program solve sessions = flexible_cube_scanner solve (session_outcomes sessions)"

text \<open>Fixtures: a uniformly coloured VGA frame, six sessions that each capture and confirm one
  face of a solved cube, and a stub solver that answers every cube with the same moves.\<close>

definition uniform_frame :: "bgr \<Rightarrow> frame" where
  "uniform_frame c = \<lparr>fheight = 480, fwidth = 640, pixel = \<lambda>_ _. c\<rparr>"

definition demo_sessions :: "(bool \<times> event list) list" where
  "demo_sessions =
     map (\<lambda>c. (True, [Frame (uniform_frame c) 32, Frame (uniform_frame c) 13]))
       [(255, 255, 255), (255, 0, 0), (0, 0, 255), (0, 255, 255), (0, 255, 0), (0, 165, 255)]"

definition stub_solver :: solver where
  "stub_solver s max_depth max_solutions = Some ''R1 U2 F3 (3f)''"

text \<open>A session that captures and confirms a white face.\<close>

definition white_session :: "bool \<times> event list" where
  "white_session = (True, [Frame (uniform_frame (255, 255, 255)) 32, Frame (uniform_frame (255, 255, 255)) 13])"

text \<open>
  A camera input for any reading: a VGA frame painted, at the nine cell centres, with a
  reference pixel of each label, and the session that captures and confirms it.
\<close>

definition rep_pixel :: "char \<Rightarrow> bgr" where
  "rep_pixel l =
     (if l = CHR ''W'' then (255, 255, 255) else if l = CHR ''Y'' then (0, 255, 255)
      else if l = CHR ''O'' then (0, 165, 255) else if l = CHR ''R'' then (0, 0, 255)
      else if l = CHR ''G'' then (0, 255, 0) else (255, 0, 0))"

definition paint_frame :: "char list \<Rightarrow> frame" where
  "paint_frame fc =
     \<lparr>fheight = 480, fwidth = 640,
      pixel = \<lambda>y x. rep_pixel (fc ! (3 * ((y - 200) div 100) + (x - 220) div 100))\<rparr>"

definition face_session :: "char list \<Rightarrow> bool \<times> event list" where
  "face_session fc = (True, [Frame (paint_frame fc) 32, Frame (paint_frame fc) 13])"

subsection \<open>Properties spanning the components\<close>

lemma session_outcomes_valid: "valid_runs (session_outcomes sessions)"
  using session_loop_valid [OF session_init_inv]
  by (auto simp: valid_runs_def session_outcomes_def scan_single_face_def valid_reading_def
           split: if_splits run.splits)

lemma flexible_cube_scanner_Done:
  assumes "valid_runs rs" and "flexible_cube_scanner solve rs = Done (cube, out)"
  shows "\<exists>st. scanner_inv st \<and> 6 \<le> length (all_faces st) \<and>
              cube = concat (map (\<lambda>f. the (map_of (all_faces st) (Some f))) ordered_faces) \<and>
              length cube = 54 \<and> set cube \<subseteq> set scan_palette \<and> out = convert_and_solve solve cube"
proof -
  from assms(2) obtain st where loop: "scanner_loop scanner_init rs = Done st"
    and cs: "cube_string_of st = Inr cube" and out: "out = convert_and_solve solve cube"
    by (auto simp: flexible_cube_scanner_def split: run.splits sum.splits)
  from scanner_loop_Done [OF scanner_init_inv assms(1) loop] have
    inv: "scanner_inv st" and len: "6 \<le> length (all_faces st)" by auto
  with cube_string_of_complete [OF inv len] cs out show ?thesis by auto
qed

lemma colorconvert_cube:
  "length s = 54 \<Longrightarrow> set s \<subseteq> set scan_palette \<Longrightarrow>
   colorconvert s = Inr (map (\<lambda>c. hd (conv_char c)) s)"
  by (simp add: colorconvert_def colorconvert_loop_eq concat_conv_char_map)

lemma centre_letter:
  "map_of face_mapping c = Some (ordered_faces ! i) \<Longrightarrow> i < 6 \<Longrightarrow> hd (conv_char c) = ''URFDLB'' ! i"
proof -
  assume m: "map_of face_mapping c = Some (ordered_faces ! i)" and i: "i < 6"
  from m have mem: "(c, ordered_faces ! i) \<in> set face_mapping" by (rule map_of_SomeD)
  from i have "i = 0 \<or> i = 1 \<or> i = 2 \<or> i = 3 \<or> i = 4 \<or> i = 5" by arith
  with mem show ?thesis
    by (elim disjE) (simp_all add: face_mapping_def ordered_faces_def conv_char_def)
qed

text \<open>
  C1: end to end, whenever the program returns a cube string, that string translates
  without error into 54 solver-palette letters, which the inverse map takes back to the
  cube string, whose face centres (indices 4, 13, 22, 31, 40, 49) read \<open>URFDLB\<close>, the
  facelet order the solver expects; and the solver is called on exactly that string with
  depth 20 and 3 solutions, its failure being reported rather than raised.
\<close>

theorem cube_scanner_solver_input:
  assumes "run_program solve sessions = Done (cube, out)"
  shows "\<exists>conv. colorconvert cube = Inr conv \<and> length conv = 54 \<and> set conv \<subseteq> set solver_palette \<and>
           map solver_to_scan conv = cube \<and> map (\<lambda>i. conv ! (9 * i + 4)) [0..<6] = ''URFDLB'' \<and>
           out = (case solve conv 20 3 of None \<Rightarrow> SolveFailed
                  | Some solution \<Rightarrow> Solved solution (print_readable_solution solution))"
proof -
  from flexible_cube_scanner_Done [OF session_outcomes_valid assms [unfolded run_program_def]]
  obtain st where inv: "scanner_inv st" and len: "6 \<le> length (all_faces st)"
    and cube: "cube = concat (map (\<lambda>f. the (map_of (all_faces st) (Some f))) ordered_faces)"
    and l54: "length cube = 54" and pal: "set cube \<subseteq> set scan_palette"
    and out: "out = convert_and_solve solve cube" by blast
  define conv where "conv = map (\<lambda>c. hd (conv_char c)) cube"
  have cc: "colorconvert cube = Inr conv" using l54 pal by (simp add: conv_def colorconvert_cube)
  have props: "length conv = 54 \<and> set conv \<subseteq> set solver_palette \<and> map solver_to_scan conv = cube"
    using concat_conv_char_palette [OF pal] l54 by (simp add: conv_def concat_conv_char_map [OF pal])
  have slots: "set ordered_faces = set face_slots" by (simp add: ordered_faces_def face_slots_def)
  have lens: "\<And>f. f \<in> set ordered_faces \<Longrightarrow> length (the (map_of (all_faces st) (Some f))) = 9"
    using scanner_inv_lookup [OF inv len] slots by fastforce
  have centre: "conv ! (9 * i + 4) = ''URFDLB'' ! i" if i: "i < 6" for i
  proof -
    have lo: "length ordered_faces = 6" by (simp add: ordered_faces_def)
    have f: "ordered_faces ! i \<in> set face_slots" using i lo slots nth_mem by metis
    from scanner_inv_lookup [OF inv len f] obtain fc where
      fc: "map_of (all_faces st) (Some (ordered_faces ! i)) = Some fc"
      and id: "identify_face_by_center fc = Some (ordered_faces ! i)" by blast
    have "cube ! (9 * i + 4) = the (map_of (all_faces st) (Some (ordered_faces ! i))) ! 4"
      unfolding cube by (rule nth_concat_map_const [OF lens]) (simp_all add: i lo)
    with fc have "cube ! (9 * i + 4) = fc ! 4" by simp
    moreover have "9 * i + 4 < length cube" using i l54 by simp
    ultimately have "conv ! (9 * i + 4) = hd (conv_char (fc ! 4))" by (simp add: conv_def)
    also have "\<dots> = ''URFDLB'' ! i" using centre_letter [OF identify_centre [OF id f] i] .
    finally show ?thesis .
  qed
  have "map (\<lambda>i. conv ! (9 * i + 4)) [0..<6] = map (\<lambda>i. ''URFDLB'' ! i) [0..<6]"
    using centre by simp
  also have "\<dots> = ''URFDLB''" by (simp add: upt_rec)
  finally have cent: "map (\<lambda>i. conv ! (9 * i + 4)) [0..<6] = ''URFDLB''" .
  show ?thesis using cc props cent out by (simp add: convert_and_solve_def)
qed

lemma demo_outcomes:
  "session_outcomes demo_sessions =
     [Done (Some ''WWWWWWWWW''), Done (Some ''BBBBBBBBB''), Done (Some ''RRRRRRRRR''),
      Done (Some ''YYYYYYYYY''), Done (Some ''GGGGGGGGG''), Done (Some ''OOOOOOOOO'')]"
  by code_simp

theorem cube_scanner_solver_input_witness:
  "run_program stub_solver demo_sessions =
     Done (''WWWWWWWWWBBBBBBBBBRRRRRRRRRYYYYYYYYYGGGGGGGGGOOOOOOOOO'',
           Solved ''R1 U2 F3 (3f)'' (print_readable_solution ''R1 U2 F3 (3f)'')) \<and>
   (\<exists>conv. colorconvert ''WWWWWWWWWBBBBBBBBBRRRRRRRRRYYYYYYYYYGGGGGGGGGOOOOOOOOO'' = Inr conv \<and>
      length conv = 54 \<and> set conv \<subseteq> set solver_palette \<and>
      map solver_to_scan conv = ''WWWWWWWWWBBBBBBBBBRRRRRRRRRYYYYYYYYYGGGGGGGGGOOOOOOOOO'' \<and>
      map (\<lambda>i. conv ! (9 * i + 4)) [0..<6] = ''URFDLB'' \<and>
      Solved ''R1 U2 F3 (3f)'' (print_readable_solution ''R1 U2 F3 (3f)'') =
        (case stub_solver conv 20 3 of None \<Rightarrow> SolveFailed
         | Some solution \<Rightarrow> Solved solution (print_readable_solution solution)))"
proof -
  have r: "run_program stub_solver demo_sessions =
     Done (''WWWWWWWWWBBBBBBBBBRRRRRRRRRYYYYYYYYYGGGGGGGGGOOOOOOOOO'',
           Solved ''R1 U2 F3 (3f)'' (print_readable_solution ''R1 U2 F3 (3f)''))"
    unfolding run_program_def demo_outcomes by code_simp
  show ?thesis using cube_scanner_solver_input [OF r] r by blast
qed

text \<open>
  C10: the program returns a cube string (no \<open>KeyError\<close>, no further waiting) as soon as
  every session up to that point has returned and the readings identify each of the six
  slots.
\<close>

theorem run_program_completes:
  assumes "\<forall>r \<in> set (session_outcomes sessions). \<exists>x. r = Done x"
    and "\<forall>f \<in> set face_slots. \<exists>r \<in> set (session_outcomes sessions). identified r = Some f"
  shows "\<exists>cube out. run_program solve sessions = Done (cube, out)"
proof -
  let ?rs = "session_outcomes sessions"
  have v: "valid_runs ?rs" by (rule session_outcomes_valid)
  have a: "\<forall>r \<in> set ?rs. \<exists>x. r = Done x \<and> valid_reading x"
    using assms(1) v by (fastforce simp: valid_runs_def)
  have b: "\<forall>f \<in> set face_slots. Some f \<in> set (map fst (all_faces scanner_init)) \<or>
             (\<exists>r \<in> set ?rs. identified r = Some f)"
    using assms(2) by blast
  from scanner_loop_progress [OF scanner_init_inv a b] obtain st where
    loop: "scanner_loop scanner_init ?rs = Done st" by blast
  from scanner_loop_Done [OF scanner_init_inv v loop] have
    "scanner_inv st" and "6 \<le> length (all_faces st)" by auto
  from cube_string_of_complete [OF this] loop show ?thesis
    by (auto simp: run_program_def flexible_cube_scanner_def)
qed

theorem run_program_completes_witness:
  "\<exists>cube out. run_program stub_solver demo_sessions = Done (cube, out)"
proof -
  have a: "\<forall>r \<in> set (session_outcomes demo_sessions). \<exists>x. r = Done x"
    unfolding demo_outcomes by simp
  have b: "\<forall>f \<in> set face_slots. \<exists>r \<in> set (session_outcomes demo_sessions). identified r = Some f"
    unfolding demo_outcomes by code_simp
  show ?thesis using run_program_completes [OF a b] .
qed

lemma scanner_loop_failed_scans:
  "length (all_faces st) < 6 \<Longrightarrow> \<forall>r \<in> set rs. r = Done None \<Longrightarrow> scanner_loop st rs = Waiting"
proof (induction rs arbitrary: st)
  case Nil
  then show ?case by (simp add: scanner_loop.simps)
next
  case (Cons r rs)
  have "all_faces (scan_attempt st None) = all_faces st" by (simp add: scan_attempt_def Let_def)
  with Cons show ?case by (simp add: scanner_loop.simps [of st])
qed

text \<open>
  C17: the retry policy has no bound: if the camera never opens, every attempt is a failed
  scan and the program keeps waiting for another attempt, however many are made.
\<close>

theorem run_program_camera_closed:
  "\<forall>s \<in> set sessions. \<not> fst s \<Longrightarrow> run_program solve sessions = Waiting"
proof -
  assume closed: "\<forall>s \<in> set sessions. \<not> fst s"
  have "\<forall>r \<in> set (session_outcomes sessions). r = Done None"
    using closed by (auto simp: session_outcomes_def scan_single_face_def)
  then have "scanner_loop scanner_init (session_outcomes sessions) = Waiting"
    by (intro scanner_loop_failed_scans) (simp_all add: scanner_init_def)
  then show ?thesis by (simp add: run_program_def flexible_cube_scanner_def)
qed

theorem run_program_camera_closed_witness:
  "run_program stub_solver (replicate 100 (False, [])) = Waiting"
proof -
  have c: "\<forall>s \<in> set (replicate 100 (False, [])). \<not> fst (s :: bool \<times> event list)" by simp
  show ?thesis using run_program_camera_closed [OF c] .
qed

text \<open>
  C8: an exception escaping a capture session (the sampler's \<open>IndexError\<close> on a frame too
  small for the grid) is caught nowhere: whenever the sessions before it have returned without
  completing the cube, it ends the whole program, whatever sessions would follow.
\<close>

theorem run_program_session_error:
  assumes "\<forall>r \<in> set (session_outcomes before). \<exists>x. r = Done x"
    and "scanner_loop scanner_init (session_outcomes before) = Waiting"
    and "session_loop session_init evs = Raised e"
  shows "run_program solve (before @ (True, evs) # after) = Raised e"
proof -
  from scanner_loop_prefix [OF assms(1,2)] obtain st' where l: "length (all_faces st') < 6"
    and p: "\<forall>rs'. scanner_loop scanner_init (session_outcomes before @ rs') = scanner_loop st' rs'" by blast
  have "session_outcomes (before @ (True, evs) # after) =
        session_outcomes before @ Raised e # session_outcomes after"
    using assms(3) by (simp add: session_outcomes_def scan_single_face_def)
  with p l show ?thesis
    by (simp add: run_program_def flexible_cube_scanner_def scanner_loop.simps [of st'])
qed

theorem run_program_session_error_witness:
  "run_program stub_solver ([white_session] @ (True, [Frame narrow_frame 32]) # demo_sessions) = Raised IndexError"
proof -
  have o: "session_outcomes [white_session] = [Done (Some ''WWWWWWWWW'')]" by code_simp
  have a: "\<forall>r \<in> set (session_outcomes [white_session]). \<exists>x. r = Done x" unfolding o by simp
  have b: "scanner_loop scanner_init (session_outcomes [white_session]) = Waiting" unfolding o by code_simp
  have c: "session_loop session_init [Frame narrow_frame 32] = Raised IndexError" by code_simp
  show ?thesis using run_program_session_error [OF a b c] .
qed

lemma reference_pixels:
  "map detect_color [(255, 255, 255), (0, 255, 255), (0, 165, 255), (0, 0, 255), (0, 255, 0), (255, 0, 0)]
     = ''WYORGB''"
  by code_simp

lemma rep_pixel_label: "l \<in> set scan_palette \<Longrightarrow> detect_color (rep_pixel l) = l"
  using reference_pixels by (auto simp: scan_palette_def rep_pixel_def)

lemma sample_paint_frame:
  assumes "length fc = 9" and "set fc \<subseteq> set scan_palette"
  shows "sample_face (paint_frame fc) = Inr fc"
proof -
  have "sample_face (paint_frame fc) = Inr (map (\<lambda>(row, col). fc ! (3 * row + col)) grid_cells)"
    unfolding sample_face_def
  proof (rule sample_cells_all_ok)
    fix rc assume "rc \<in> set grid_cells"
    then obtain row col where rc: "rc = (row, col)" and r: "row \<le> 2" and c: "col \<le> 2"
      by (auto simp: grid_cells_eq)
    then have i: "3 * row + col < length fc" using assms(1) by simp
    have "(200 + 100 * row - 200) div 100 = row" "(220 + 100 * col - 220) div 100 = col" by simp_all
    with r c i assms(2) show "sample_cell (paint_frame fc) rc = Inr ((\<lambda>(row, col). fc ! (3 * row + col)) rc)"
      by (simp add: rc sample_cell_in_frame paint_frame_def rep_pixel_label subsetD)
  qed
  moreover have "map (\<lambda>(row, col). fc ! (3 * row + col)) grid_cells = map ((!) fc) [0..<9]"
    by (simp add: grid_cells_eq upt_rec numeral_eq_Suc)
  ultimately show ?thesis using assms(1) map_nth [of fc] by simp
qed

lemma face_session_outcome:
  "length fc = 9 \<Longrightarrow> set fc \<subseteq> set scan_palette \<Longrightarrow>
   fst (scan_single_face (fst (face_session fc)) (snd (face_session fc))) = Done (Some fc)"
  by (simp add: face_session_def scan_single_face_def session_step_def session_init_def key_of_def
                sample_paint_frame)

text \<open>
  C25: the \<open>UNKNOWN\<close> branch of the scan loop (lines 180--183) is dead: every reading a
  session returns has nine scan-palette labels, so its centre always names a slot, and no run
  of the loop ever reports an unknown centre colour.
\<close>

theorem scan_never_unknown:
  "scanner_loop scanner_init (session_outcomes sessions) = Done st \<Longrightarrow> UnknownCenter c \<notin> set (reports st)"
proof -
  assume d: "scanner_loop scanner_init (session_outcomes sessions) = Done st"
  have "UnknownCenter c \<notin> set (reports scanner_init)" by (simp add: scanner_init_def)
  from scanner_loop_no_unknown [OF session_outcomes_valid this d] show ?thesis .
qed

theorem scan_never_unknown_witness:
  "UnknownCenter CHR ''K'' \<notin> set (reports
     \<lparr>all_faces = [(Some TOP, ''WWWWWWWWW''), (Some RIGHT, ''BBBBBBBBB''), (Some FRONT, ''RRRRRRRRR''),
                   (Some BOTTOM, ''YYYYYYYYY''), (Some LEFT, ''GGGGGGGGG''), (Some BACK, ''OOOOOOOOO'')],
      face_count = 6,
      reports = map (\<lambda>f. Identified (Some f)) [TOP, RIGHT, FRONT, BOTTOM, LEFT, BACK]\<rparr>)"
proof -
  have "scanner_loop scanner_init (session_outcomes demo_sessions) =
     Done \<lparr>all_faces = [(Some TOP, ''WWWWWWWWW''), (Some RIGHT, ''BBBBBBBBB''), (Some FRONT, ''RRRRRRRRR''),
                   (Some BOTTOM, ''YYYYYYYYY''), (Some LEFT, ''GGGGGGGGG''), (Some BACK, ''OOOOOOOOO'')],
      face_count = 6,
      reports = map (\<lambda>f. Identified (Some f)) [TOP, RIGHT, FRONT, BOTTOM, LEFT, BACK]\<rparr>"
    unfolding demo_outcomes by code_simp
  then show ?thesis by (rule scan_never_unknown)
qed

text \<open>
  C34: the scanner checks nothing beyond the centres: every string of 54 scan-palette letters
  whose face centres (indices 4, 13, 22, 31, 40, 49) read \<open>WBRYGO\<close> is returned by the
  program, for some camera input (one session per face, in slot order) and any solver; so
  strings that no cube has, such as one with 49 white facelets, reach the solver.
\<close>

theorem cube_strings_reachable:
  assumes "length c = 54" and "set c \<subseteq> set scan_palette"
    and "map (\<lambda>i. c ! (9 * i + 4)) [0..<6] = ''WBRYGO''"
  shows "run_program solve (map (\<lambda>i. face_session (take 9 (drop (9 * i) c))) [0..<6]) =
           Done (c, convert_and_solve solve c)"
proof -
  let ?f = "\<lambda>i. take 9 (drop (9 * i) c)"
  have len: "length (?f i) = 9" if "i < 6" for i using that assms(1) by simp
  have pal: "set (?f i) \<subseteq> set scan_palette" if "i < 6" for i
    using assms(2) set_take_subset set_drop_subset by fastforce
  have cen: "?f i ! 4 = ''WBRYGO'' ! i" if "i < 6" for i
  proof -
    have "?f i ! 4 = c ! (9 * i + 4)" using that assms(1) by simp
    also have "\<dots> = map (\<lambda>i. c ! (9 * i + 4)) [0..<6] ! i" using that by simp
    finally show ?thesis using assms(3) by simp
  qed
  have idf: "identify_face_by_center (?f i) = Some (ordered_faces ! i)" if "i < 6" for i
  proof -
    from that have "i = 0 \<or> i = 1 \<or> i = 2 \<or> i = 3 \<or> i = 4 \<or> i = 5" by arith
    with len [OF that] cen [OF that] show ?thesis
      by (elim disjE) (auto simp: identify_face_by_center_def face_mapping_def ordered_faces_def)
  qed
  have outs: "session_outcomes (map (\<lambda>i. face_session (?f i)) [0..<6]) =
      map (\<lambda>f. Done (Some f)) (map ?f [0..<6])"
    using face_session_outcome [OF len pal] by (simp add: session_outcomes_def case_prod_beta)
  have "\<forall>i < 6. identify_face_by_center (map ?f [0..<6] ! i) = Some (ordered_faces ! i)"
    using idf by simp
  then obtain st where l: "scanner_loop scanner_init (map (\<lambda>f. Done (Some f)) (map ?f [0..<6])) = Done st"
    and cs: "cube_string_of st = Inr (concat (map ?f [0..<6]))"
    using scanner_six_faces [of "map ?f [0..<6]"] by auto
  have "concat (map ?f [0..<6]) = c" using concat_take_drop [of c 9 6] assms(1) by simp
  with l cs outs show ?thesis by (simp add: run_program_def flexible_cube_scanner_def)
qed

theorem cube_strings_reachable_witness:
  "run_program stub_solver
     (map (\<lambda>i. face_session (take 9 (drop (9 * i) ''WWWWWWWWWWWWWBWWWWWWWWRWWWWWWWWYWWWWWWWWGWWWWWWWWOWWWW''))) [0..<6]) =
   Done (''WWWWWWWWWWWWWBWWWWWWWWRWWWWWWWWYWWWWWWWWGWWWWWWWWOWWWW'',
         convert_and_solve stub_solver ''WWWWWWWWWWWWWBWWWWWWWWRWWWWWWWWYWWWWWWWWGWWWWWWWWOWWWW'')"
proof -
  have "length ''WWWWWWWWWWWWWBWWWWWWWWRWWWWWWWWYWWWWWWWWGWWWWWWWWOWWWW'' = 54" by simp
  moreover have "set ''WWWWWWWWWWWWWBWWWWWWWWRWWWWWWWWYWWWWWWWWGWWWWWWWWOWWWW'' \<subseteq> set scan_palette"
    by (simp add: scan_palette_def)
  moreover have "map (\<lambda>i. ''WWWWWWWWWWWWWBWWWWWWWWRWWWWWWWWYWWWWWWWWGWWWWWWWWOWWWW'' ! (9 * i + 4)) [0..<6] = ''WBRYGO''"
    by (simp add: upt_rec)
  ultimately show ?thesis by (rule cube_strings_reachable)
qed

end
